theory Spec2Isabelle
  imports Main "HOL-Library.Monad_Syntax"
begin

section \<open>JavaScript primitives used by the cron engine\<close>

text \<open>
  Strings are modelled as \<open>string\<close> (ASCII text). Numbers produced by \<open>parseInt\<close> are
  integers or \<open>NaN\<close>; integers are unbounded, which agrees with IEEE doubles below
  \<open>2^53\<close>.
\<close>

datatype jsnum = Num int | NaN

fun js_lt :: "jsnum \<Rightarrow> jsnum \<Rightarrow> bool" where
  "js_lt (Num a) (Num b) = (a < b)"
| "js_lt _ _ = False"

fun js_le :: "jsnum \<Rightarrow> jsnum \<Rightarrow> bool" where
  "js_le (Num a) (Num b) = (a \<le> b)"
| "js_le _ _ = False"

definition js_gt :: "jsnum \<Rightarrow> jsnum \<Rightarrow> bool" where
  "js_gt a b = js_lt b a"

definition js_ge :: "jsnum \<Rightarrow> jsnum \<Rightarrow> bool" where
  "js_ge a b = js_le b a"

fun js_add :: "jsnum \<Rightarrow> jsnum \<Rightarrow> jsnum" where
  "js_add (Num a) (Num b) = Num (a + b)"
| "js_add _ _ = NaN"

definition is_digit :: "char \<Rightarrow> bool" where
  "is_digit c = (c \<in> set ''0123456789'')"

definition is_space :: "char \<Rightarrow> bool" where
  "is_space c = (c \<in> set [CHR '' '', CHR 0x09, CHR 0x0A, CHR 0x0B, CHR 0x0C, CHR 0x0D])"

definition lower_char :: "char \<Rightarrow> char" where
  "lower_char c =
     (case map_of (zip ''ABCDEFGHIJKLMNOPQRSTUVWXYZ'' ''abcdefghijklmnopqrstuvwxyz'') c of
        Some d \<Rightarrow> d
      | None \<Rightarrow> c)"

definition toLowerCase :: "string \<Rightarrow> string" where
  "toLowerCase s = map lower_char s"

definition trim :: "string \<Rightarrow> string" where
  "trim s = rev (dropWhile is_space (rev (dropWhile is_space s)))"

definition digit_val :: "char \<Rightarrow> nat" where
  "digit_val c = of_char c - 48"

definition digits_val :: "string \<Rightarrow> nat" where
  "digits_val ds = foldl (\<lambda>a c. 10 * a + digit_val c) 0 ds"

text \<open>\<open>parseInt(s, 10)\<close>: leading white space, an optional sign, then the longest run of
  decimal digits; \<open>NaN\<close> when that run is empty. Trailing text is ignored.\<close>

definition parseInt :: "string \<Rightarrow> jsnum" where
  "parseInt s =
     (let t = dropWhile is_space s;
          neg = (case t of c # _ \<Rightarrow> c = CHR ''-'' | [] \<Rightarrow> False);
          u = (case t of c # r \<Rightarrow> if c = CHR ''-'' \<or> c = CHR ''+'' then r else t | [] \<Rightarrow> []);
          ds = takeWhile is_digit u
      in if ds = [] then NaN
         else Num (if neg then - int (digits_val ds) else int (digits_val ds)))"

definition digit_char :: "nat \<Rightarrow> char" where
  "digit_char n = ''0123456789'' ! n"

fun nat_toString :: "nat \<Rightarrow> string" where
  "nat_toString n =
     (if n < 10 then [digit_char n] else nat_toString (n div 10) @ [digit_char (n mod 10)])"

declare nat_toString.simps [simp del]

definition int_toString :: "int \<Rightarrow> string" where
  "int_toString i = (if i < 0 then CHR ''-'' # nat_toString (nat (- i)) else nat_toString (nat i))"

fun js_toString :: "jsnum \<Rightarrow> string" where
  "js_toString (Num i) = int_toString i"
| "js_toString NaN = ''NaN''"

text \<open>\<open>s.split(c)\<close> for a one-character separator: never empty, \<open>''.split(c)\<close> is \<open>['']\<close>.\<close>

fun split_on :: "char \<Rightarrow> string \<Rightarrow> string list" where
  "split_on c [] = [[]]"
| "split_on c (x # xs) =
     (if x = c then [] # split_on c xs
      else (case split_on c xs of y # ys \<Rightarrow> (x # y) # ys | [] \<Rightarrow> [[x]]))"

text \<open>\<open>s.split(/\s+/)\<close>: the pieces between maximal runs of white space; a run at either
  end leaves an empty piece there.\<close>

function split_ws :: "string \<Rightarrow> string list" where
  "split_ws [] = [[]]"
| "split_ws (x # xs) =
     (if is_space x then [] # split_ws (dropWhile is_space xs)
      else (case split_ws xs of y # ys \<Rightarrow> (x # y) # ys | [] \<Rightarrow> [[x]]))"
  by pat_completeness auto
termination
  by (relation "measure length") (auto simp: length_dropWhile_le less_Suc_eq_le)

text \<open>\<open>xs.join(sep)\<close>.\<close>

fun join :: "string \<Rightarrow> string list \<Rightarrow> string" where
  "join sep [] = []"
| "join sep [x] = x"
| "join sep (x # y # ys) = x @ sep @ join sep (y # ys)"

text \<open>\<open>s.replace(new RegExp(name, 'gi'), value)\<close> for a name made of letters only: every
  leftmost, non-overlapping, case-insensitive occurrence is replaced.\<close>

function replace_gi :: "string \<Rightarrow> string \<Rightarrow> string \<Rightarrow> string" where
  "replace_gi name v [] = []"
| "replace_gi name v (c # cs) =
     (if name \<noteq> [] \<and> toLowerCase (take (length name) (c # cs)) = toLowerCase name
      then v @ replace_gi name v (drop (length name) (c # cs))
      else c # replace_gi name v cs)"
  by pat_completeness auto
termination
  by (relation "measure (\<lambda>(name, v, s). length s)") auto

text \<open>A \<open>Set\<close> of numbers in insertion order; \<open>add\<close> uses SameValueZero, under which
  \<open>NaN\<close> equals itself.\<close>

definition set_add :: "jsnum \<Rightarrow> jsnum list \<Rightarrow> jsnum list" where
  "set_add v vs = (if v \<in> set vs then vs else vs @ [v])"

text \<open>\<open>Array.from(values).sort((a, b) => a - b)\<close>, as an insertion sort driven by the
  comparator: an element moves behind another only when the difference is positive. On
  integers this is ascending order. A \<open>NaN\<close> member makes the comparator inconsistent and
  the language leaves the order open; the order chosen here is one of the permitted ones and
  only membership is used in that case.\<close>

fun cmp_gt :: "jsnum \<Rightarrow> jsnum \<Rightarrow> bool" where
  "cmp_gt (Num a) (Num b) = (a - b > 0)"
| "cmp_gt _ _ = False"

fun sort_insert :: "jsnum \<Rightarrow> jsnum list \<Rightarrow> jsnum list" where
  "sort_insert x [] = [x]"
| "sort_insert x (y # ys) = (if cmp_gt x y then y # sort_insert x ys else x # y # ys)"

definition js_sort :: "jsnum list \<Rightarrow> jsnum list" where
  "js_sort xs = foldr sort_insert xs []"

section \<open>Field parser (src/core/parser.js)\<close>

record field_def =
  min_v :: int
  max_v :: int
  names :: "string list"

datatype field_name = Minute | Hour | DayOfMonth | Month | DayOfWeek

fun FIELDS :: "field_name \<Rightarrow> field_def" where
  "FIELDS Minute = \<lparr>min_v = 0, max_v = 59, names = []\<rparr>"
| "FIELDS Hour = \<lparr>min_v = 0, max_v = 23, names = []\<rparr>"
| "FIELDS DayOfMonth = \<lparr>min_v = 1, max_v = 31, names = []\<rparr>"
| "FIELDS Month = \<lparr>min_v = 1, max_v = 12,
     names = [''jan'', ''feb'', ''mar'', ''apr'', ''may'', ''jun'',
              ''jul'', ''aug'', ''sep'', ''oct'', ''nov'', ''dec'']\<rparr>"
| "FIELDS DayOfWeek = \<lparr>min_v = 0, max_v = 7,
     names = [''sun'', ''mon'', ''tue'', ''wed'', ''thu'', ''fri'', ''sat'']\<rparr>"

definition FIELD_ORDER :: "field_name list" where
  "FIELD_ORDER = [Minute, Hour, DayOfMonth, Month, DayOfWeek]"

record parsed_field =
  "values" :: "jsnum list"
  raw :: string
  description :: string
  outOfRange :: "jsnum list"

text \<open>\<open>parseField\<close> is only ever called with a member of \<open>FIELDS\<close>, so the definition is
  passed by its key and the identity test \<open>def === FIELDS.dayOfWeek\<close> is a test on the key.\<close>

text \<open>Name replacement: \<open>names.forEach((name, i) => ...)\<close> with value \<open>i\<close> for the day of
  week and \<open>i + 1\<close> otherwise.\<close>

fun replace_names :: "bool \<Rightarrow> string list \<Rightarrow> nat \<Rightarrow> string \<Rightarrow> string" where
  "replace_names dow [] i normalizedField = normalizedField"
| "replace_names dow (name # rest) i normalizedField =
     replace_names dow rest (i + 1)
       (replace_gi name (nat_toString (if dow then i else i + 1)) normalizedField)"

text \<open>\<open>for (let i = min; i <= max; i += stepNum) values.add(i)\<close>. The loop variable is a
  JavaScript number; the loop need not end, so the result is optional and \<open>None\<close> stands
  for a run that never returns.\<close>

partial_function (option) wildcard_loop ::
  "jsnum \<Rightarrow> jsnum \<Rightarrow> jsnum \<Rightarrow> jsnum list \<Rightarrow> jsnum list option" where
  "wildcard_loop i mx stepNum vals =
     (if js_le i mx then wildcard_loop (js_add i stepNum) mx stepNum (set_add i vals)
      else Some vals)"

declare wildcard_loop.simps [code]

text \<open>\<open>for (let i = start; i <= end; i += stepNum) if (i >= min && i <= max)
  values.add(i === 7 && def === FIELDS.dayOfWeek ? 0 : i)\<close>.\<close>

partial_function (option) range_loop ::
  "bool \<Rightarrow> jsnum \<Rightarrow> jsnum \<Rightarrow> jsnum \<Rightarrow> jsnum \<Rightarrow> jsnum \<Rightarrow> jsnum list \<Rightarrow> jsnum list option" where
  "range_loop dow mn mx i end stepNum vals =
     (if js_le i end
      then range_loop dow mn mx (js_add i stepNum) end stepNum
             (if js_ge i mn \<and> js_le i mx
              then set_add (if i = Num 7 \<and> dow then Num 0 else i) vals
              else vals)
      else Some vals)"

declare range_loop.simps [code]

text \<open>\<open>const [range, step] = segment.split('/')\<close>: \<open>step\<close> is undefined when the segment
  has no slash.\<close>

definition split_step :: "string \<Rightarrow> string \<times> string option" where
  "split_step segment =
     (case split_on CHR ''/'' segment of
        r # s # _ \<Rightarrow> (r, Some s)
      | [r] \<Rightarrow> (r, None)
      | [] \<Rightarrow> ([], None))"

text \<open>Truthiness of \<open>step\<close>: defined and not the empty string.\<close>

definition truthy :: "string option \<Rightarrow> bool" where
  "truthy step = (case step of Some s \<Rightarrow> s \<noteq> [] | None \<Rightarrow> False)"

definition step_num :: "string option \<Rightarrow> jsnum" where
  "step_num step = (case step of Some s \<Rightarrow> if s \<noteq> [] then parseInt s else Num 1 | None \<Rightarrow> Num 1)"

text \<open>The state of the loop over segments: \<open>values\<close>, \<open>parts\<close>, \<open>outOfRange\<close>.\<close>

type_synonym field_state = "jsnum list \<times> string list \<times> jsnum list"

definition parse_segment :: "field_name \<Rightarrow> field_state \<Rightarrow> string \<Rightarrow> field_state option" where
  "parse_segment fn st segment =
     (case st of (vals, parts, oor) \<Rightarrow>
      let mn = Num (min_v (FIELDS fn));
          mx = Num (max_v (FIELDS fn));
          dow = (fn = DayOfWeek);
          range = fst (split_step segment);
          step = snd (split_step segment);
          stepNum = step_num step
      in
      if range = ''*'' then
        (case wildcard_loop mn mx stepNum vals of
           None \<Rightarrow> None
         | Some vals' \<Rightarrow>
             Some (vals',
                   parts @ [if truthy step then ''every '' @ js_toString stepNum else ''every''],
                   oor))
      else if CHR ''-'' \<in> set range then
        (let start = parseInt (split_on CHR ''-'' range ! 0);
             end = parseInt (split_on CHR ''-'' range ! 1);
             oor1 = (if js_lt start mn \<or> js_gt start mx then oor @ [start] else oor);
             oor2 = (if js_lt end mn \<or> js_gt end mx then oor1 @ [end] else oor1)
         in case range_loop dow mn mx start end stepNum vals of
              None \<Rightarrow> None
            | Some vals' \<Rightarrow>
                Some (vals',
                      parts @ [js_toString start @ ''-'' @ js_toString end @
                               (if truthy step then '' every '' @ js_toString stepNum else [])],
                      oor2))
      else
        (let originalVal = parseInt range;
             val = (if originalVal = Num 7 \<and> dow then Num 0 else originalVal)
         in if js_lt originalVal mn \<or> (js_gt originalVal mx \<and> \<not> (dow \<and> originalVal = Num 7))
            then Some (vals, parts @ [js_toString originalVal], oor @ [originalVal])
            else Some (set_add val vals, parts @ [js_toString originalVal], oor)))"

fun parse_segments :: "field_name \<Rightarrow> field_state \<Rightarrow> string list \<Rightarrow> field_state option" where
  "parse_segments fn st [] = Some st"
| "parse_segments fn st (segment # rest) =
     (case parse_segment fn st segment of
        None \<Rightarrow> None
      | Some st' \<Rightarrow> parse_segments fn st' rest)"

definition parseField :: "string \<Rightarrow> field_name \<Rightarrow> parsed_field option" where
  "parseField field fn =
     (let normalizedField =
            replace_names (fn = DayOfWeek) (names (FIELDS fn)) 0 (toLowerCase field);
          segments = split_on CHR '','' normalizedField
      in case parse_segments fn ([], [], []) segments of
           None \<Rightarrow> None
         | Some (vals, parts, oor) \<Rightarrow>
             Some \<lparr>values = js_sort vals, raw = field,
                   description = join '', '' parts, outOfRange = oor\<rparr>)"

text \<open>Two abbreviations used in the statements below: the segments that \<open>parseField\<close>
  loops over, and the value under which a day of the week is stored.\<close>

definition segments_of :: "field_name \<Rightarrow> string \<Rightarrow> string list" where
  "segments_of fn field =
     split_on CHR '','' (replace_names (fn = DayOfWeek) (names (FIELDS fn)) 0 (toLowerCase field))"

definition norm7 :: "bool \<Rightarrow> int \<Rightarrow> int" where
  "norm7 dow k = (if k = 7 \<and> dow then 0 else k)"

section \<open>Expression parser (src/core/parser.js)\<close>

text \<open>\<open>ALIASES\<close>; \<open>None\<close> is the \<open>null\<close> stored under \<open>@reboot\<close>.\<close>

definition ALIASES :: "(string \<times> string option) list" where
  "ALIASES =
     [(''@yearly'', Some ''0 0 1 1 *''),
      (''@annually'', Some ''0 0 1 1 *''),
      (''@monthly'', Some ''0 0 1 * *''),
      (''@weekly'', Some ''0 0 * * 0''),
      (''@daily'', Some ''0 0 * * *''),
      (''@midnight'', Some ''0 0 * * *''),
      (''@hourly'', Some ''0 * * * *''),
      (''@reboot'', None)]"

fun FIELD_NAMES :: "field_name \<Rightarrow> string" where
  "FIELD_NAMES Minute = ''minute''"
| "FIELD_NAMES Hour = ''hour''"
| "FIELD_NAMES DayOfMonth = ''day of month''"
| "FIELD_NAMES Month = ''month''"
| "FIELD_NAMES DayOfWeek = ''day of week''"

record cron_fields =
  minute :: parsed_field
  hour :: parsed_field
  dayOfMonth :: parsed_field
  month :: parsed_field
  dayOfWeek :: parsed_field

text \<open>The three shapes of object that \<open>parse\<close> returns: the structural failure
  \<open>{valid: false, error, suggestion}\<close>, the reboot sentinel
  \<open>{valid: true, alias: '@reboot', fields: null, isReboot: true}\<close>, and the field-wise
  result \<open>{valid, original, fields, errors}\<close>.\<close>

datatype parse_result =
    Structural string string
  | Reboot
  | Expression bool string cron_fields "string list"

fun valid :: "parse_result \<Rightarrow> bool" where
  "valid (Structural error suggestion) = False"
| "valid Reboot = True"
| "valid (Expression v original fs errs) = v"

fun isReboot :: "parse_result \<Rightarrow> bool" where
  "isReboot Reboot = True"
| "isReboot _ = False"

fun fields_of :: "parse_result \<Rightarrow> cron_fields option" where
  "fields_of (Expression v original fs errs) = Some fs"
| "fields_of _ = None"

fun errors :: "parse_result \<Rightarrow> string list" where
  "errors (Expression v original fs errs) = errs"
| "errors _ = []"

text \<open>The message pushed for a field whose \<open>outOfRange\<close> list is not empty.\<close>

definition field_errors :: "field_name \<Rightarrow> parsed_field \<Rightarrow> string list" where
  "field_errors fn parsed =
     (if outOfRange parsed \<noteq> []
      then [FIELD_NAMES fn @ '': values out of range ('' @
            join '', '' (map js_toString (outOfRange parsed)) @ '')'']
      else [])"

text \<open>The body of \<open>parse\<close> below the alias check. \<open>parseField\<close> raises on no string, so
  the \<open>catch\<close> branch of the loop over \<open>FIELD_ORDER\<close> is not modelled (sets are unbounded
  here; an engine that bounds them raises in a loop that grows one for ever, and only then
  is the branch taken). A field whose parse never returns keeps the whole call from
  returning.\<close>

definition parse_plain :: "string \<Rightarrow> parse_result option" where
  "parse_plain expression =
     (let trimmed = trim expression;
          parts = split_ws trimmed
      in if length parts < 5 \<or> length parts > 6
         then Some (Structural
                (''Invalid field count: expected 5, got '' @ nat_toString (length parts))
                ''Format: minute hour day-of-month month day-of-week'')
         else
           (let fs = (if length parts = 6 then tl parts else parts) in
            do {
              f0 \<leftarrow> parseField (fs ! 0) Minute;
              f1 \<leftarrow> parseField (fs ! 1) Hour;
              f2 \<leftarrow> parseField (fs ! 2) DayOfMonth;
              f3 \<leftarrow> parseField (fs ! 3) Month;
              f4 \<leftarrow> parseField (fs ! 4) DayOfWeek;
              let errs = field_errors Minute f0 @ field_errors Hour f1 @
                         field_errors DayOfMonth f2 @ field_errors Month f3 @
                         field_errors DayOfWeek f4;
              Some (Expression (errs = []) expression
                      \<lparr>minute = f0, hour = f1, dayOfMonth = f2, month = f3, dayOfWeek = f4\<rparr>
                      errs)
            }))"

text \<open>\<open>parse\<close>. A known alias is parsed through its expansion, which starts with no
  \<open>@\<close>, so the recursive call is a call of the body below the alias check.\<close>

definition parse :: "string \<Rightarrow> parse_result option" where
  "parse expression =
     (let trimmed = trim expression in
      if take 1 trimmed = ''@'' then
        (let alias = toLowerCase trimmed in
         if alias = ''@reboot'' then Some Reboot
         else (case map_of ALIASES alias of
                 Some (Some target) \<Rightarrow> parse_plain target
               | _ \<Rightarrow>
                   Some (Structural (''Unknown alias: '' @ alias)
                           (''Valid aliases: '' @ join '', '' (map fst ALIASES)))))
      else parse_plain expression)"

section \<open>Scheduler (src/core/parser.js)\<close>

text \<open>An instant is a number of milliseconds since the epoch. The calendar arithmetic is
  the date library's, which is not part of the repository: a time zone is taken as a
  parameter, the function that gives the local calendar components of an instant
  (\<open>weekday\<close> counts Monday as 1 and Sunday as 7).\<close>

record date_time =
  dt_month :: int
  dt_day :: int
  dt_weekday :: int
  dt_hour :: int
  dt_minute :: int
  dt_second :: int
  dt_millisecond :: int

type_synonym zone = "int \<Rightarrow> date_time"

text \<open>\<open>current.plus({minutes: 1})\<close> adds 60000 ms to the instant;
  \<open>startOf('minute')\<close> clears the local seconds and milliseconds.\<close>

definition plus_minute :: "int \<Rightarrow> int" where
  "plus_minute ts = ts + 60000"

definition startOf_minute :: "zone \<Rightarrow> int \<Rightarrow> int" where
  "startOf_minute timezone ts =
     ts - (dt_second (timezone ts) * 1000 + dt_millisecond (timezone ts))"

definition maxIterations :: nat where
  "maxIterations = 366 * 24 * 60"

text \<open>\<open>values.includes(n)\<close>.\<close>

definition includes_v :: "jsnum list \<Rightarrow> int \<Rightarrow> bool" where
  "includes_v vs n = (Num n \<in> set vs)"

text \<open>The day clause of the loop body.\<close>

definition dayMatch :: "cron_fields \<Rightarrow> int \<Rightarrow> int \<Rightarrow> bool" where
  "dayMatch fs dayOfMonth_now dayOfWeek_now =
     (let domAll = (raw (dayOfMonth fs) = ''*'');
          dowAll = (raw (dayOfWeek fs) = ''*'')
      in if domAll \<and> dowAll then True
         else if domAll then includes_v (values (dayOfWeek fs)) dayOfWeek_now
         else if dowAll then includes_v (values (dayOfMonth fs)) dayOfMonth_now
         else includes_v (values (dayOfMonth fs)) dayOfMonth_now \<or>
              includes_v (values (dayOfWeek fs)) dayOfWeek_now)"

definition matches :: "zone \<Rightarrow> cron_fields \<Rightarrow> int \<Rightarrow> bool" where
  "matches timezone fs current =
     (let c = timezone current;
          dayOfWeek_now = dt_weekday c mod 7;
          minuteMatch = includes_v (values (minute fs)) (dt_minute c);
          hourMatch = includes_v (values (hour fs)) (dt_hour c);
          monthMatch = includes_v (values (month fs)) (dt_month c)
      in minuteMatch \<and> hourMatch \<and> dayMatch fs (dt_day c) dayOfWeek_now \<and> monthMatch)"

text \<open>\<open>while (occurrences.length < count && iterations < maxIterations)\<close>.\<close>

function occurrences_loop ::
  "zone \<Rightarrow> cron_fields \<Rightarrow> nat \<Rightarrow> int list \<Rightarrow> nat \<Rightarrow> int \<Rightarrow> int list" where
  "occurrences_loop timezone fs count occurrences iterations current =
     (if length occurrences < count \<and> iterations < maxIterations
      then occurrences_loop timezone fs count
             (if matches timezone fs current then occurrences @ [current] else occurrences)
             (iterations + 1) (plus_minute current)
      else occurrences)"
  by pat_completeness auto
termination
  by (relation "measure (\<lambda>(timezone, fs, count, occurrences, iterations, current).
                           maxIterations - iterations)") auto

declare occurrences_loop.simps [simp del]

text \<open>\<open>getNextOccurrences(expression, count, {timezone, from})\<close>.\<close>

definition getNextOccurrences :: "string \<Rightarrow> nat \<Rightarrow> zone \<Rightarrow> int \<Rightarrow> int list option" where
  "getNextOccurrences expression count timezone from =
     (case parse expression of
        None \<Rightarrow> None
      | Some parsed \<Rightarrow>
          if \<not> valid parsed \<or> isReboot parsed then Some []
          else (case fields_of parsed of
                  None \<Rightarrow> Some []
                | Some fs \<Rightarrow>
                    Some (occurrences_loop timezone fs count [] 0
                            (startOf_minute timezone (plus_minute from)))))"

text \<open>The candidate minutes: \<open>n\<close> instants one minute apart, from \<open>current\<close> on.\<close>

definition candidates :: "int \<Rightarrow> nat \<Rightarrow> int list" where
  "candidates current n = map (\<lambda>k. current + 60000 * int k) [0..<n]"

section \<open>Regular-expression pieces used by the generator and the converter\<close>

text \<open>Each regular expression of the source is written out as the matcher it denotes. A
  matcher works at the front of its argument; \<open>search\<close> tries it at every position from
  the left, as an unanchored \<open>match\<close> or \<open>test\<close> does.\<close>

fun search :: "(string \<Rightarrow> 'a option) \<Rightarrow> string \<Rightarrow> 'a option" where
  "search m [] = m []"
| "search m (c # cs) = (case m (c # cs) of Some r \<Rightarrow> Some r | None \<Rightarrow> search m cs)"

text \<open>A literal, compared without regard to case (flag \<open>i\<close>); the literal is given in
  lower case. The result is the text behind it.\<close>

definition lit :: "string \<Rightarrow> string \<Rightarrow> string option" where
  "lit l s = (if toLowerCase (take (length l) s) = l then Some (drop (length l) s) else None)"

text \<open>\<open>\s+\<close> before a token that is no white space: all of the run is taken.\<close>

definition spaces1 :: "string \<Rightarrow> string option" where
  "spaces1 s = (case s of c # cs \<Rightarrow> if is_space c then Some (dropWhile is_space cs) else None
                | [] \<Rightarrow> None)"

definition is_word :: "char \<Rightarrow> bool" where
  "is_word c =
     (c \<in> set ''abcdefghijklmnopqrstuvwxyzABCDEFGHIJKLMNOPQRSTUVWXYZ0123456789_'')"

text \<open>\<open>s.includes(pattern)\<close>.\<close>

fun includes_s :: "string \<Rightarrow> string \<Rightarrow> bool" where
  "includes_s [] pattern = (pattern = [])"
| "includes_s (c # cs) pattern =
     (take (length pattern) (c # cs) = pattern \<or> includes_s cs pattern)"

section \<open>Generator (core/generator)\<close>

definition PATTERNS :: "(string \<times> string) list" where
  "PATTERNS =
     [(''every minute'', ''* * * * *''),
      (''every hour'', ''0 * * * *''),
      (''hourly'', ''0 * * * *''),
      (''every day'', ''0 0 * * *''),
      (''daily'', ''0 0 * * *''),
      (''every week'', ''0 0 * * 0''),
      (''weekly'', ''0 0 * * 0''),
      (''every month'', ''0 0 1 * *''),
      (''monthly'', ''0 0 1 * *''),
      (''every year'', ''0 0 1 1 *''),
      (''yearly'', ''0 0 1 1 *''),
      (''annually'', ''0 0 1 1 *''),
      (''at midnight'', ''0 0 * * *''),
      (''midnight'', ''0 0 * * *''),
      (''at noon'', ''0 12 * * *''),
      (''noon'', ''0 12 * * *''),
      (''weekdays'', ''0 9 * * 1-5''),
      (''weekends'', ''0 9 * * 0,6''),
      (''every weekday'', ''0 9 * * 1-5''),
      (''every weekend'', ''0 9 * * 0,6''),
      (''business hours'', ''0 9-17 * * 1-5''),
      (''work hours'', ''0 9-17 * * 1-5'')]"

definition DAYS :: "(string \<times> int) list" where
  "DAYS =
     [(''sunday'', 0), (''sun'', 0), (''monday'', 1), (''mon'', 1),
      (''tuesday'', 2), (''tue'', 2), (''wednesday'', 3), (''wed'', 3),
      (''thursday'', 4), (''thu'', 4), (''friday'', 5), (''fri'', 5),
      (''saturday'', 6), (''sat'', 6)]"

definition MONTHS :: "(string \<times> int) list" where
  "MONTHS =
     [(''january'', 1), (''jan'', 1), (''february'', 2), (''feb'', 2),
      (''march'', 3), (''mar'', 3), (''april'', 4), (''apr'', 4), (''may'', 5),
      (''june'', 6), (''jun'', 6), (''july'', 7), (''jul'', 7),
      (''august'', 8), (''aug'', 8), (''september'', 9), (''sep'', 9),
      (''october'', 10), (''oct'', 10), (''november'', 11), (''nov'', 11),
      (''december'', 12), (''dec'', 12)]"

text \<open>\<open>/^(\d{1,2})(?::(\d{2}))?\s*(am|pm)?$/i\<close>: the hour digits, the minute digits if
  present, the meridiem if present. Every part but the first is optional and the end is
  anchored, so only the greedy choice at each part can match.\<close>

definition colon_minutes :: "string \<Rightarrow> string option \<times> string" where
  "colon_minutes s =
     (case s of
        c # a # b # r \<Rightarrow>
          if c = CHR '':'' \<and> is_digit a \<and> is_digit b then (Some [a, b], r) else (None, s)
      | _ \<Rightarrow> (None, s))"

definition meridiem :: "string \<Rightarrow> string option \<times> string" where
  "meridiem s =
     (if toLowerCase (take 2 s) = ''am'' \<or> toLowerCase (take 2 s) = ''pm''
      then (Some (take 2 s), drop 2 s) else (None, s))"

definition match12 :: "string \<Rightarrow> (string \<times> string option \<times> string option) option" where
  "match12 str =
     (let h = takeWhile is_digit (take 2 str);
          r1 = drop (length h) str;
          m = fst (colon_minutes r1);
          r2 = snd (colon_minutes r1);
          r3 = dropWhile is_space r2;
          ap = fst (meridiem r3);
          r4 = snd (meridiem r3)
      in if h \<noteq> [] \<and> r4 = [] then Some (h, m, ap) else None)"

text \<open>\<open>/^(\d{1,2}):(\d{2})$/\<close>.\<close>

definition match24 :: "string \<Rightarrow> (string \<times> string) option" where
  "match24 str =
     (let h = takeWhile is_digit (take 2 str);
          r1 = drop (length h) str
      in case colon_minutes r1 of
           (Some m, r2) \<Rightarrow> if h \<noteq> [] \<and> r2 = [] then Some (h, m) else None
         | (None, r2) \<Rightarrow> None)"

definition in_day :: "int \<Rightarrow> int \<Rightarrow> bool" where
  "in_day h m = (h \<ge> 0 \<and> h \<le> 23 \<and> m \<ge> 0 \<and> m \<le> 59)"

text \<open>\<open>parseTime(timeStr)\<close>: the pair \<open>(hour, minute)\<close>, or \<open>None\<close> for \<open>null\<close>.\<close>

definition parseTime12 :: "string \<Rightarrow> (int \<times> int) option" where
  "parseTime12 str =
     (case match12 str of
        None \<Rightarrow> None
      | Some (h, m, ap) \<Rightarrow>
          (let hour0 = int (digits_val h);
               minute_now = (case m of Some mm \<Rightarrow> int (digits_val mm) | None \<Rightarrow> 0);
               ampm = map_option toLowerCase ap;
               hour1 = (if ampm = Some ''pm'' \<and> hour0 < 12 then hour0 + 12 else hour0);
               hour2 = (if ampm = Some ''am'' \<and> hour1 = 12 then 0 else hour1)
           in if in_day hour2 minute_now then Some (hour2, minute_now) else None))"

definition parseTime24 :: "string \<Rightarrow> (int \<times> int) option" where
  "parseTime24 str =
     (case match24 str of
        None \<Rightarrow> None
      | Some (h, m) \<Rightarrow>
          if in_day (int (digits_val h)) (int (digits_val m))
          then Some (int (digits_val h), int (digits_val m)) else None)"

definition parseTime :: "string \<Rightarrow> (int \<times> int) option" where
  "parseTime timeStr =
     (let str = trim (toLowerCase timeStr)
      in case parseTime12 str of
           Some t \<Rightarrow> Some t
         | None \<Rightarrow> parseTime24 str)"

text \<open>\<open>/at\s+(\d{1,2}(?::\d{2})?\s*(?:am|pm)?)/i\<close>: the captured time text. Behind the
  first digit everything is optional, so the greedy choice always matches.\<close>

definition time_text :: "string \<Rightarrow> string option" where
  "time_text s =
     (let h = takeWhile is_digit (take 2 s);
          r1 = drop (length h) s;
          m = (case fst (colon_minutes r1) of Some mm \<Rightarrow> CHR '':'' # mm | None \<Rightarrow> []);
          r2 = snd (colon_minutes r1);
          w = takeWhile is_space r2;
          r3 = dropWhile is_space r2;
          ap = (case fst (meridiem r3) of Some a \<Rightarrow> a | None \<Rightarrow> [])
      in if h = [] then None else Some (h @ m @ w @ ap))"

definition at_time :: "string \<Rightarrow> string option" where
  "at_time input = search (\<lambda>s. lit ''at'' s \<bind> spaces1 \<bind> time_text) input"

text \<open>\<open>/every\s+(\d+)\s+minutes?/i\<close> and \<open>/every\s+(\d+)\s+hours?/i\<close>: the captured
  digits. The optional final \<open>s\<close> is last and changes no match.\<close>

definition every_n :: "string \<Rightarrow> string \<Rightarrow> string option" where
  "every_n unit input =
     search (\<lambda>s. do {
               r \<leftarrow> lit ''every'' s \<bind> spaces1;
               let n = takeWhile is_digit r;
               _ \<leftarrow> (if n = [] then None else spaces1 (dropWhile is_digit r) \<bind> lit unit);
               Some n
             }) input"

text \<open>\<open>/every\s+day/i\<close>.\<close>

definition every_day :: "string \<Rightarrow> bool" where
  "every_day input = (search (\<lambda>s. lit ''every'' s \<bind> spaces1 \<bind> lit ''day'') input \<noteq> None)"

text \<open>\<open>new RegExp(`(every\\s+|on\\s+)?${dayName}s?`, 'i').test(input)\<close>: the prefix and
  the suffix are optional and the expression is unanchored, so the test holds exactly when
  the day name occurs in the input.\<close>

definition day_test :: "string \<Rightarrow> string \<Rightarrow> bool" where
  "day_test dayName input = (search (lit dayName) input \<noteq> None)"

text \<open>\<open>/on\s+(?:the\s+)?(\d{1,2})(?:st|nd|rd|th)?(?:\s+of)?/i\<close>: the captured digits.\<close>

definition digits12 :: "string \<Rightarrow> string option" where
  "digits12 s = (let d = takeWhile is_digit (take 2 s) in if d = [] then None else Some d)"

definition on_the :: "string \<Rightarrow> string option" where
  "on_the input =
     search (\<lambda>s. do {
               r \<leftarrow> lit ''on'' s \<bind> spaces1;
               (case lit ''the'' r \<bind> spaces1 \<bind> digits12 of
                  Some d \<Rightarrow> Some d
                | None \<Rightarrow> digits12 r)
             }) input"

text \<open>\<open>new RegExp(`in\\s+${monthName}`, 'i').test(input)\<close>.\<close>

definition month_test :: "string \<Rightarrow> string \<Rightarrow> bool" where
  "month_test monthName input =
     (search (\<lambda>s. lit ''in'' s \<bind> spaces1 \<bind> lit monthName) input \<noteq> None)"

text \<open>\<open>/(\w+)\s+(?:through|to|-)\s+(\w+)/i\<close>: the two captured words. A shorter first
  word would leave a word character where white space must follow, so the first word is
  the whole run.\<close>

definition word1 :: "string \<Rightarrow> (string \<times> string) option" where
  "word1 s = (let w = takeWhile is_word s in if w = [] then None else Some (w, dropWhile is_word s))"

definition range_word :: "string \<Rightarrow> string \<Rightarrow> string option" where
  "range_word keyword r = do {
     (w, _) \<leftarrow> lit keyword r \<bind> spaces1 \<bind> word1;
     Some w
   }"

definition day_range :: "string \<Rightarrow> (string \<times> string) option" where
  "day_range input =
     search (\<lambda>s. do {
               (w1, r) \<leftarrow> word1 s;
               r' \<leftarrow> spaces1 r;
               w2 \<leftarrow> (case range_word ''through'' r' of
                        Some w \<Rightarrow> Some w
                      | None \<Rightarrow> (case range_word ''to'' r' of
                                   Some w \<Rightarrow> Some w
                                 | None \<Rightarrow> range_word ''-'' r'));
               Some (w1, w2)
             }) input"

datatype gen_result =
    Success string string
  | Failure string string

fun success :: "gen_result \<Rightarrow> bool" where
  "success (Success e d) = True"
| "success (Failure e sg) = False"

fun expression :: "gen_result \<Rightarrow> string option" where
  "expression (Success e d) = Some e"
| "expression (Failure e sg) = None"

definition generated_from :: "string \<Rightarrow> string" where
  "generated_from text = ''Generated from: '' @ [CHR 0x22] @ text @ [CHR 0x22]"

text \<open>The body of the loop over \<open>PATTERNS\<close> for the first entry that matches. The guard
  compares the entry's expression with the table's expression under the same key.\<close>

definition direct :: "string \<Rightarrow> string \<Rightarrow> string \<Rightarrow> string \<Rightarrow> gen_result" where
  "direct text input pattern cron =
     (let timeMatch = at_time input
      in case timeMatch of
           Some t \<Rightarrow>
             if Some cron \<noteq> map_of PATTERNS pattern
             then (case parseTime t of
                     Some (h, m) \<Rightarrow>
                       Success (join '' '' ((split_on CHR '' '' cron)
                                  [0 := int_toString m, 1 := int_toString h]))
                               (generated_from text)
                   | None \<Rightarrow> Success cron (generated_from text))
             else Success cron (generated_from text)
         | None \<Rightarrow> Success cron (generated_from text))"

text \<open>The draft of the compositional part: the five field strings and the flag
  \<open>matched\<close>.\<close>

record draft =
  d_minute :: string
  d_hour :: string
  d_dayOfMonth :: string
  d_month :: string
  d_dayOfWeek :: string
  matched :: bool

definition star_or :: "string \<Rightarrow> string \<Rightarrow> string" where
  "star_or v s = (if s = ''*'' then v else s)"

definition step_everyMinutes :: "string \<Rightarrow> draft \<Rightarrow> draft" where
  "step_everyMinutes input d =
     (case every_n ''minute'' input of
        Some n \<Rightarrow> d\<lparr>d_minute := ''*/'' @ n, matched := True\<rparr>
      | None \<Rightarrow> d)"

definition step_everyHours :: "string \<Rightarrow> draft \<Rightarrow> draft" where
  "step_everyHours input d =
     (case every_n ''hour'' input of
        Some n \<Rightarrow> d\<lparr>d_minute := ''0'', d_hour := ''*/'' @ n, matched := True\<rparr>
      | None \<Rightarrow> d)"

definition step_atTime :: "string \<Rightarrow> draft \<Rightarrow> draft" where
  "step_atTime input d =
     (case at_time input \<bind> parseTime of
        Some (h, m) \<Rightarrow> d\<lparr>d_minute := int_toString m, d_hour := int_toString h, matched := True\<rparr>
      | None \<Rightarrow> d)"

definition step_everyDay :: "string \<Rightarrow> draft \<Rightarrow> draft" where
  "step_everyDay input d =
     (if every_day input
      then d\<lparr>d_minute := star_or ''0'' (d_minute d), d_hour := star_or ''0'' (d_hour d),
             matched := True\<rparr>
      else d)"

definition step_dayName :: "string \<Rightarrow> draft \<Rightarrow> draft" where
  "step_dayName input d =
     (case find (\<lambda>(dayName, dayNum). day_test dayName input) DAYS of
        Some (dayName, dayNum) \<Rightarrow>
          d\<lparr>d_dayOfWeek := int_toString dayNum, d_minute := star_or ''0'' (d_minute d),
            d_hour := star_or ''9'' (d_hour d), matched := True\<rparr>
      | None \<Rightarrow> d)"

definition step_dayOfMonth :: "string \<Rightarrow> draft \<Rightarrow> draft" where
  "step_dayOfMonth input d =
     (case on_the input of
        Some ds \<Rightarrow>
          (let day = int (digits_val ds)
           in if day \<ge> 1 \<and> day \<le> 31
              then d\<lparr>d_dayOfMonth := int_toString day, d_minute := star_or ''0'' (d_minute d),
                     d_hour := star_or ''0'' (d_hour d), matched := True\<rparr>
              else d)
      | None \<Rightarrow> d)"

definition step_month :: "string \<Rightarrow> draft \<Rightarrow> draft" where
  "step_month input d =
     (case find (\<lambda>(monthName, monthNum). month_test monthName input) MONTHS of
        Some (monthName, monthNum) \<Rightarrow> d\<lparr>d_month := int_toString monthNum, matched := True\<rparr>
      | None \<Rightarrow> d)"

text \<open>The look-up \<open>DAYS[word]\<close> is modelled on the table's own keys.\<close>

definition step_dayRange :: "string \<Rightarrow> draft \<Rightarrow> draft" where
  "step_dayRange input d =
     (case day_range input of
        Some (w1, w2) \<Rightarrow>
          (case (map_of DAYS (toLowerCase w1), map_of DAYS (toLowerCase w2)) of
             (Some start, Some end) \<Rightarrow>
               d\<lparr>d_dayOfWeek := int_toString start @ ''-'' @ int_toString end,
                 d_minute := star_or ''0'' (d_minute d), d_hour := star_or ''9'' (d_hour d),
                 matched := True\<rparr>
           | _ \<Rightarrow> d)
      | None \<Rightarrow> d)"

definition compose :: "string \<Rightarrow> draft" where
  "compose input =
     step_dayRange input (step_month input (step_dayOfMonth input (step_dayName input
       (step_everyDay input (step_atTime input (step_everyHours input (step_everyMinutes input
         \<lparr>d_minute = ''*'', d_hour = ''*'', d_dayOfMonth = ''*'', d_month = ''*'',
          d_dayOfWeek = ''*'', matched = False\<rparr>)))))))"

definition generate :: "string \<Rightarrow> gen_result" where
  "generate text =
     (let input = trim (toLowerCase text)
      in case find (\<lambda>(pattern, cron). input = pattern \<or> includes_s input pattern) PATTERNS of
           Some (pattern, cron) \<Rightarrow> direct text input pattern cron
         | None \<Rightarrow>
             (let d = compose input
              in if matched d
                 then Success (d_minute d @ '' '' @ d_hour d @ '' '' @ d_dayOfMonth d @ '' '' @
                               d_month d @ '' '' @ d_dayOfWeek d)
                              (generated_from text)
                 else Failure ''Could not parse the description''
                        (''Try patterns like: '' @ [CHR 0x22] @ ''every 5 minutes'' @ [CHR 0x22] @
                         '', '' @ [CHR 0x22] @ ''at 3pm on weekdays'' @ [CHR 0x22] @
                         '', '' @ [CHR 0x22] @ ''every monday at 9am'' @ [CHR 0x22])))"

text \<open>The round trip of a text: it is turned into an expression and that expression
  parses as valid.\<close>

definition parses_valid :: "string \<Rightarrow> bool" where
  "parses_valid text =
     (case expression (generate text) of
        Some e \<Rightarrow> map_option valid (parse e) = Some True
      | None \<Rightarrow> False)"

section \<open>Converter: AWS to standard cron (core/converter)\<close>

text \<open>\<open>/cron\s*\(\s*(.+)\s*\)/i\<close>: the captured text. The dot matches no line
  terminator. The white space behind the parenthesis is taken greedily and given back one
  character at a time; the group is taken greedily and given back one character at a time
  until white space and a closing parenthesis follow.\<close>

definition is_line_terminator :: "char \<Rightarrow> bool" where
  "is_line_terminator c = (c = CHR 0x0A \<or> c = CHR 0x0D)"

definition closes :: "string \<Rightarrow> bool" where
  "closes s = (case dropWhile is_space s of c # _ \<Rightarrow> c = CHR '')'' | [] \<Rightarrow> False)"

definition group_close :: "string \<Rightarrow> string option" where
  "group_close q =
     (let m = length (takeWhile (\<lambda>c. \<not> is_line_terminator c) q)
      in map_option (\<lambda>len. take len q)
           (find (\<lambda>len. closes (drop len q)) (rev [1..<Suc m])))"

definition cron_paren :: "string \<Rightarrow> string option" where
  "cron_paren s =
     (case lit ''cron'' s of
        None \<Rightarrow> None
      | Some r \<Rightarrow>
          (case dropWhile is_space r of
             c # q \<Rightarrow>
               if c = CHR ''(''
               then (let w = length (takeWhile is_space q)
                     in case find (\<lambda>k. group_close (drop k q) \<noteq> None) (rev [0..<Suc w]) of
                          Some k \<Rightarrow> group_close (drop k q)
                        | None \<Rightarrow> None)
               else None
           | [] \<Rightarrow> None))"

text \<open>The conversion result \<open>{success, format, result}\<close> or \<open>{success: false, error}\<close>.
  The field \<open>description\<close> is the text of \<open>describe(result)\<close>, which parses the result
  again: the text is left out, the call is kept, so that the conversion returns only where
  that parse returns.\<close>

datatype conversion =
    Converted string string
  | ConversionError string

fun result :: "conversion \<Rightarrow> string option" where
  "result (Converted format r) = Some r"
| "result (ConversionError e) = None"

text \<open>The function mapped over \<open>dow.split(',')\<close>.\<close>

definition remap_dow :: "string \<Rightarrow> string" where
  "remap_dow d =
     (case parseInt d of
        Num num \<Rightarrow> int_toString (if num = 1 then 0 else num - 1)
      | NaN \<Rightarrow> d)"

definition question_to_star :: "string \<Rightarrow> string" where
  "question_to_star f = (if f = ''?'' then ''*'' else f)"

definition fromAws :: "string \<Rightarrow> conversion option" where
  "fromAws awsExpr =
     (case search cron_paren awsExpr of
        None \<Rightarrow> Some (ConversionError ''Invalid AWS cron format. Expected: cron(...)'')
      | Some inner \<Rightarrow>
          (let parts = split_ws (trim inner)
           in if length parts \<noteq> 6
              then Some (ConversionError (''Invalid AWS cron: expected 6 fields, got '' @
                                          nat_toString (length parts)))
              else
                (let dom = question_to_star (parts ! 2);
                     dow0 = question_to_star (parts ! 4);
                     dow = (if dow0 \<noteq> ''*''
                            then join '','' (map remap_dow (split_on CHR '','' dow0))
                            else dow0);
                     standardCron = parts ! 0 @ '' '' @ parts ! 1 @ '' '' @ dom @ '' '' @
                                    parts ! 3 @ '' '' @ dow
                 in case parse standardCron of
                      None \<Rightarrow> None
                    | Some described \<Rightarrow> Some (Converted ''cron'' standardCron))))"

section \<open>Indexing the pieces of a split\<close>

text \<open>A text that contains the separator splits into two pieces or more, so the first two
  pieces of a range exist wherever the range branch reads them.\<close>

lemma split_on_not_empty: "split_on c s \<noteq> []"
  by (induction s) (auto split: list.splits)

lemma split_on_two: "c \<in> set s \<Longrightarrow> 2 \<le> length (split_on c s)"
proof (induction s)
  case Nil
  then show ?case by simp
next
  case (Cons x xs)
  show ?case
  proof (cases "x = c")
    case True
    with split_on_not_empty[of c xs] show ?thesis
      by (cases "split_on c xs") simp_all
  next
    case False
    with Cons have "2 \<le> length (split_on c xs)" by simp
    with False show ?thesis
      by (cases "split_on c xs") simp_all
  qed
qed

section \<open>Where the field parser does not return\<close>

text \<open>A loop whose counter starts at or below its bound and whose step is zero or negative
  never ends. (With a negative step the wild-card loop also grows the set without bound; an
  engine with bounded memory ends that case by raising.)\<close>

lemma wildcard_loop_no_result:
  assumes "wildcard_loop i mx s vals = Some r"
  shows "\<not> (\<exists>a b c. i = Num a \<and> mx = Num b \<and> s = Num c \<and> a \<le> b \<and> c \<le> 0)"
  using assms
proof (induction rule: wildcard_loop.raw_induct[rotated 1, consumes 1])
  case (1 f i mx s vals r)
  show ?case
  proof
    assume "\<exists>a b c. i = Num a \<and> mx = Num b \<and> s = Num c \<and> a \<le> b \<and> c \<le> 0"
    then obtain a b c where h: "i = Num a" "mx = Num b" "s = Num c" "a \<le> b" "c \<le> 0" by blast
    with 1(2) have "f (Num (a + c)) (Num b) (Num c) (set_add (Num a) vals) = Some r" by simp
    from 1(1)[OF this] h show False by auto
  qed
qed

lemma wildcard_loop_diverges:
  "a \<le> b \<Longrightarrow> c \<le> 0 \<Longrightarrow> wildcard_loop (Num a) (Num b) (Num c) vals = None"
  using wildcard_loop_no_result[of "Num a" "Num b" "Num c" vals]
  by (cases "wildcard_loop (Num a) (Num b) (Num c) vals") auto

lemma range_loop_no_result:
  assumes "range_loop dow mn mx i e s vals = Some r"
  shows "\<not> (\<exists>a b c. i = Num a \<and> e = Num b \<and> s = Num c \<and> a \<le> b \<and> c \<le> 0)"
  using assms
proof (induction rule: range_loop.raw_induct[rotated 1, consumes 1])
  case (1 f dow mn mx i e s vals r)
  show ?case
  proof
    assume "\<exists>a b c. i = Num a \<and> e = Num b \<and> s = Num c \<and> a \<le> b \<and> c \<le> 0"
    then obtain a b c where h: "i = Num a" "e = Num b" "s = Num c" "a \<le> b" "c \<le> 0" by blast
    with 1(2) obtain vals' where "f dow mn mx (Num (a + c)) (Num b) (Num c) vals' = Some r" by simp
    from 1(1)[OF this] h show False by auto
  qed
qed

lemma range_loop_diverges:
  "a \<le> b \<Longrightarrow> c \<le> 0 \<Longrightarrow> range_loop dow mn mx (Num a) (Num b) (Num c) vals = None"
  using range_loop_no_result[of dow mn mx "Num a" "Num b" "Num c" vals]
  by (cases "range_loop dow mn mx (Num a) (Num b) (Num c) vals") auto

lemma min_le_max: "min_v (FIELDS fn) \<le> max_v (FIELDS fn)"
  by (cases fn) simp_all

lemma parse_segment_wildcard_diverges:
  assumes "fst (split_step segment) = ''*''" "step_num (snd (split_step segment)) = Num c" "c \<le> 0"
  shows "parse_segment fn st segment = None"
  using assms min_le_max[of fn]
  by (cases st) (simp add: parse_segment_def wildcard_loop_diverges)

lemma parse_segment_range_diverges:
  assumes "fst (split_step segment) = rg" "rg \<noteq> ''*''" "CHR ''-'' \<in> set rg"
    "parseInt (split_on CHR ''-'' rg ! 0) = Num a"
    "parseInt (split_on CHR ''-'' rg ! 1) = Num b" "a \<le> b"
    "step_num (snd (split_step segment)) = Num c" "c \<le> 0"
  shows "parse_segment fn st segment = None"
  using assms
  by (cases st) (simp add: parse_segment_def range_loop_diverges Let_def)

lemma parse_segments_diverges:
  assumes "segment \<in> set segments" "\<And>st. parse_segment fn st segment = None"
  shows "parse_segments fn st segments = None"
  using assms
  by (induction segments arbitrary: st) (auto split: option.splits)

lemma parseField_diverges:
  assumes "segment \<in> set (split_on CHR '','' (replace_names (fn = DayOfWeek) (names (FIELDS fn)) 0 (toLowerCase field)))"
    "\<And>st. parse_segment fn st segment = None"
  shows "parseField field fn = None"
  using parse_segments_diverges[OF assms]
  by (simp add: parseField_def)

lemma star_zero: "parseField ''*/0'' fn = None"
proof (rule parseField_diverges[where segment = "''*/0''"])
  show "''*/0'' \<in> set (split_on CHR '','' (replace_names (fn = DayOfWeek) (names (FIELDS fn)) 0 (toLowerCase ''*/0'')))"
    by (cases fn; simp; code_simp)
  show "parse_segment fn st ''*/0'' = None" for st
    by (rule parse_segment_wildcard_diverges[where c = 0]; code_simp)
qed

text \<open>
  Claim C5. The field parser is said to return on every input string and to treat a step
  suffix \<open>/0\<close> as step 1. The code takes the step as written: on \<open>*/0\<close> and on
  \<open>1-10/0\<close> the loop adds zero to its counter for ever and \<open>parseField\<close> returns
  nothing. (It does return whenever no step parses to zero or less: \<open>parseField_returns\<close>
  below.)
\<close>

theorem parseField_step_zero_never_returns:
  "parseField ''*/0'' Minute = None \<and> parseField ''1-10/0'' Minute = None"
proof
  show "parseField ''*/0'' Minute = None" by (rule star_zero)
  show "parseField ''1-10/0'' Minute = None"
  proof (rule parseField_diverges[where segment = "''1-10/0''"])
    show "''1-10/0'' \<in> set (split_on CHR '','' (replace_names (Minute = DayOfWeek)
            (names (FIELDS Minute)) 0 (toLowerCase ''1-10/0'')))"
      by code_simp
    show "parse_segment Minute st ''1-10/0'' = None" for st
      by (rule parse_segment_range_diverges[where rg = "''1-10''" and a = 1 and b = 10 and c = 0];
          code_simp)
  qed
qed

section \<open>Where the field parser returns\<close>

text \<open>With a positive step the loops end, and the values they add are the stepped members
  of the range; with a step that is no number they run once. So \<open>parseField\<close> returns on
  every field none of whose segments carries a step that parses to zero or less.\<close>

lemma set_set_add [simp]: "set (set_add v vs) = insert v (set vs)"
  by (auto simp: set_add_def)

lemma stepped_split:
  assumes "0 < (c::int)" "a \<le> b"
  shows "{k. a \<le> k \<and> k \<le> b \<and> c dvd (k - a)} =
         insert a {k. a + c \<le> k \<and> k \<le> b \<and> c dvd (k - (a + c))}"
proof -
  have m: "c dvd (k - (a + c)) \<longleftrightarrow> c dvd (k - a)" for k
    by (metis diff_diff_eq dvd_add_triv_right_iff diff_add_cancel)
  have "a + c \<le> k" if "a \<le> k" "k \<noteq> a" "c dvd (k - a)" for k
    using that assms(1) zdvd_imp_le[of c "k - a"] by auto
  with assms show ?thesis
    by (auto simp: m)
qed

lemma wildcard_loop_positive:
  assumes "0 < c"
  shows "\<exists>r. wildcard_loop (Num a) (Num b) (Num c) vals = Some r \<and>
             set r = set vals \<union> Num ` {k. a \<le> k \<and> k \<le> b \<and> c dvd (k - a)}"
proof (induction "nat (b + 1 - a)" arbitrary: a vals rule: less_induct)
  case less
  show ?case
  proof (cases "a \<le> b")
    case True
    have "nat (b + 1 - (a + c)) < nat (b + 1 - a)" using True assms by auto
    from less[OF this, of "set_add (Num a) vals"] obtain r where
      r: "wildcard_loop (Num (a + c)) (Num b) (Num c) (set_add (Num a) vals) = Some r"
         "set r = set (set_add (Num a) vals) \<union>
                  Num ` {k. a + c \<le> k \<and> k \<le> b \<and> c dvd (k - (a + c))}"
      by blast
    have "wildcard_loop (Num a) (Num b) (Num c) vals = Some r"
      using True r(1) by (subst wildcard_loop.simps) simp
    moreover have "set r = set vals \<union> Num ` {k. a \<le> k \<and> k \<le> b \<and> c dvd (k - a)}"
      unfolding r(2) stepped_split[OF assms True] by auto
    ultimately show ?thesis by blast
  next
    case False
    then have "wildcard_loop (Num a) (Num b) (Num c) vals = Some vals"
      by (subst wildcard_loop.simps) simp
    with False show ?thesis by auto
  qed
qed

lemma wildcard_loop_NaN:
  "wildcard_loop (Num a) (Num b) NaN vals = Some (if a \<le> b then set_add (Num a) vals else vals)"
  by (subst wildcard_loop.simps, subst wildcard_loop.simps) simp

lemma range_loop_positive:
  assumes "0 < c"
  shows "\<exists>r. range_loop dow (Num mn) (Num mx) (Num a) (Num b) (Num c) vals = Some r \<and>
             set r = set vals \<union>
               Num ` norm7 dow ` {k. a \<le> k \<and> k \<le> b \<and> c dvd (k - a) \<and> mn \<le> k \<and> k \<le> mx}"
proof (induction "nat (b + 1 - a)" arbitrary: a vals rule: less_induct)
  case less
  show ?case
  proof (cases "a \<le> b")
    case True
    let ?vals = "if js_ge (Num a) (Num mn) \<and> js_le (Num a) (Num mx)
                 then set_add (if Num a = Num 7 \<and> dow then Num 0 else Num a) vals else vals"
    have "nat (b + 1 - (a + c)) < nat (b + 1 - a)" using True assms by auto
    from less[OF this, of ?vals] obtain r where
      r: "range_loop dow (Num mn) (Num mx) (Num (a + c)) (Num b) (Num c) ?vals = Some r"
         "set r = set ?vals \<union>
            Num ` norm7 dow ` {k. a + c \<le> k \<and> k \<le> b \<and> c dvd (k - (a + c)) \<and> mn \<le> k \<and> k \<le> mx}"
      by blast
    have "range_loop dow (Num mn) (Num mx) (Num a) (Num b) (Num c) vals = Some r"
      using True r(1) by (subst range_loop.simps) simp
    moreover have "{k. a \<le> k \<and> k \<le> b \<and> c dvd (k - a) \<and> mn \<le> k \<and> k \<le> mx} =
        {k. a \<le> k \<and> k \<le> b \<and> c dvd (k - a)} \<inter> {k. mn \<le> k \<and> k \<le> mx}"
      "{k. a + c \<le> k \<and> k \<le> b \<and> c dvd (k - (a + c)) \<and> mn \<le> k \<and> k \<le> mx} =
        {k. a + c \<le> k \<and> k \<le> b \<and> c dvd (k - (a + c))} \<inter> {k. mn \<le> k \<and> k \<le> mx}"
      by auto
    ultimately show ?thesis
      unfolding r(2) 
      by (auto simp: stepped_split[OF assms True] js_ge_def norm7_def r(2) intro!: exI[of _ r])
  next
    case False
    then have "range_loop dow (Num mn) (Num mx) (Num a) (Num b) (Num c) vals = Some vals"
      by (subst range_loop.simps) simp
    with False show ?thesis by auto
  qed
qed

lemma range_loop_NaN_step:
  "range_loop dow mn mx (Num a) (Num b) NaN vals =
     Some (if a \<le> b
           then (if js_ge (Num a) mn \<and> js_le (Num a) mx
                 then set_add (if Num a = Num 7 \<and> dow then Num 0 else Num a) vals else vals)
           else vals)"
  by (subst range_loop.simps, subst range_loop.simps) simp

lemma range_loop_NaN_start: "range_loop dow mn mx NaN e s vals = Some vals"
  by (subst range_loop.simps) simp

lemma range_loop_NaN_end: "range_loop dow mn mx i NaN s vals = Some vals"
  by (subst range_loop.simps) (cases i; simp)

lemma wildcard_loop_returns:
  assumes "\<And>c. s = Num c \<Longrightarrow> 0 < c"
  shows "\<exists>r. wildcard_loop (Num a) (Num b) s vals = Some r"
proof (cases s)
  case (Num c)
  with assms wildcard_loop_positive[of c a b vals] show ?thesis by auto
next
  case NaN
  then show ?thesis by (simp add: wildcard_loop_NaN)
qed

lemma range_loop_returns:
  assumes "\<And>c. s = Num c \<Longrightarrow> 0 < c"
  shows "\<exists>r. range_loop dow (Num mn) (Num mx) i e s vals = Some r"
proof (cases i)
  case i: (Num a)
  show ?thesis
  proof (cases e)
    case e: (Num b)
    show ?thesis
    proof (cases s)
      case (Num c)
      with assms range_loop_positive[of c dow mn mx a b vals] i e show ?thesis by auto
    next
      case NaN
      with i e show ?thesis by (simp add: range_loop_NaN_step)
    qed
  next
    case NaN
    then show ?thesis by (simp add: range_loop_NaN_end)
  qed
next
  case NaN
  then show ?thesis by (simp add: range_loop_NaN_start)
qed

lemma parse_segment_returns:
  assumes "\<And>c. step_num (snd (split_step segment)) = Num c \<Longrightarrow> 0 < c"
  shows "\<exists>st'. parse_segment fn st segment = Some st'"
proof -
  obtain vals parts oor where st: "st = (vals, parts, oor)" by (metis prod_cases3)
  from wildcard_loop_returns[where s = "step_num (snd (split_step segment))"
         and a = "min_v (FIELDS fn)" and b = "max_v (FIELDS fn)" and vals = vals] assms
  obtain r1 where r1: "wildcard_loop (Num (min_v (FIELDS fn))) (Num (max_v (FIELDS fn)))
      (step_num (snd (split_step segment))) vals = Some r1" by blast
  from range_loop_returns[where s = "step_num (snd (split_step segment))"] assms
  obtain r2 where r2: "range_loop (fn = DayOfWeek) (Num (min_v (FIELDS fn))) (Num (max_v (FIELDS fn)))
      (parseInt (split_on CHR ''-'' (fst (split_step segment)) ! 0))
      (parseInt (split_on CHR ''-'' (fst (split_step segment)) ! 1))
      (step_num (snd (split_step segment))) vals = Some r2" by blast
  show ?thesis
    unfolding st parse_segment_def by (simp add: Let_def r1 r2 del: One_nat_def)
qed

lemma parse_segments_returns:
  assumes "\<And>segment c. segment \<in> set segments \<Longrightarrow>
             step_num (snd (split_step segment)) = Num c \<Longrightarrow> 0 < c"
  shows "\<exists>st'. parse_segments fn st segments = Some st'"
  using assms
proof (induction segments arbitrary: st)
  case Nil
  then show ?case by (simp del: split_paired_Ex)
next
  case (Cons segment rest)
  have "\<exists>st1. parse_segment fn st segment = Some st1"
    by (rule parse_segment_returns) (use Cons.prems in auto)
  then obtain st1 where 1: "parse_segment fn st segment = Some st1" ..
  have "\<exists>st2. parse_segments fn st1 rest = Some st2"
    by (rule Cons.IH) (use Cons.prems in auto)
  then obtain st2 where 2: "parse_segments fn st1 rest = Some st2" ..
  from 1 2 show ?case by (simp del: split_paired_Ex)
qed

lemma parseField_returns:
  assumes "\<And>segment c. segment \<in> set (segments_of fn field) \<Longrightarrow>
             step_num (snd (split_step segment)) = Num c \<Longrightarrow> 0 < c"
  shows "\<exists>parsed. parseField field fn = Some parsed"
proof -
  have "\<exists>st. parse_segments fn ([], [], []) (segments_of fn field) = Some st"
    by (rule parse_segments_returns) (use assms in auto)
  then obtain st where "parse_segments fn ([], [], []) (segments_of fn field) = Some st" ..
  moreover obtain vals parts oor where "st = (vals, parts, oor)" by (metis prod_cases3)
  ultimately show ?thesis
    by (simp add: parseField_def segments_of_def)
qed

section \<open>What the field parser records\<close>

lemma set_js_sort_insert: "set (sort_insert x xs) = insert x (set xs)"
  by (induction xs) auto

lemma set_js_sort [simp]: "set (js_sort xs) = set xs"
  unfolding js_sort_def by (induction xs) (auto simp: set_js_sort_insert)

text \<open>Whatever the loops return contains what they started from.\<close>

lemma wildcard_loop_keeps:
  assumes "wildcard_loop i mx s vals = Some r"
  shows "set vals \<subseteq> set r"
  using assms
proof (induction rule: wildcard_loop.raw_induct[rotated 1, consumes 1])
  case (1 f i mx s vals r)
  show ?case
  proof (cases "js_le i mx")
    case True
    with 1(2) have "f (js_add i s) mx s (set_add i vals) = Some r" by simp
    from 1(1)[OF this] show ?thesis by (auto simp: set_add_def split: if_splits)
  next
    case False
    with 1(2) show ?thesis by simp
  qed
qed

lemma range_loop_keeps:
  assumes "range_loop dow mn mx i e s vals = Some r"
  shows "set vals \<subseteq> set r"
  using assms
proof (induction rule: range_loop.raw_induct[rotated 1, consumes 1])
  case (1 f dow mn mx i e s vals r)
  define vals' where "vals' = (if js_ge i mn \<and> js_le i mx
      then set_add (if i = Num 7 \<and> dow then Num 0 else i) vals else vals)"
  have sub: "set vals \<subseteq> set vals'"
    by (auto simp: vals'_def)
  show ?case
  proof (cases "js_le i e")
    case True
    with 1(2) have "f dow mn mx (js_add i s) e s vals' = Some r"
      by (simp add: vals'_def)
    from 1(1)[OF this] sub show ?thesis by auto
  next
    case False
    with 1(2) show ?thesis by simp
  qed
qed

lemma range_loop_no_7:
  assumes "range_loop dow mn mx i e s vals = Some r"
  shows "dow \<Longrightarrow> Num 7 \<notin> set vals \<Longrightarrow> Num 7 \<notin> set r"
  using assms
proof (induction rule: range_loop.raw_induct[rotated 1, consumes 1])
  case (1 f dow mn mx i e s vals r)
  define vals' where "vals' = (if js_ge i mn \<and> js_le i mx
      then set_add (if i = Num 7 \<and> dow then Num 0 else i) vals else vals)"
  have no7: "Num 7 \<notin> set vals'"
    using 1(3,4) by (auto simp: vals'_def)
  show ?case
  proof (cases "js_le i e")
    case True
    with 1(2) have "f dow mn mx (js_add i s) e s vals' = Some r"
      by (simp add: vals'_def)
    from 1(1)[OF this 1(3) no7] show ?thesis .
  next
    case False
    with 1(2,4) show ?thesis by simp
  qed
qed

text \<open>The three branches of the loop body, one equation each.\<close>

lemma parse_segment_wildcard:
  assumes "fst (split_step segment) = ''*''"
  shows "parse_segment fn (vals, parts, oor) segment =
     (case wildcard_loop (Num (min_v (FIELDS fn))) (Num (max_v (FIELDS fn)))
             (step_num (snd (split_step segment))) vals of
        None \<Rightarrow> None
      | Some vals' \<Rightarrow>
          Some (vals',
                parts @ [if truthy (snd (split_step segment))
                         then ''every '' @ js_toString (step_num (snd (split_step segment)))
                         else ''every''],
                oor))"
  using assms by (simp add: parse_segment_def Let_def)

lemma parse_segment_range:
  assumes "fst (split_step segment) = rg" "rg \<noteq> ''*''" "CHR ''-'' \<in> set rg"
    and "parseInt (split_on CHR ''-'' rg ! 0) = start"
    and "parseInt (split_on CHR ''-'' rg ! 1) = end"
  shows "parse_segment fn (vals, parts, oor) segment =
     (case range_loop (fn = DayOfWeek) (Num (min_v (FIELDS fn))) (Num (max_v (FIELDS fn)))
             start end (step_num (snd (split_step segment))) vals of
        None \<Rightarrow> None
      | Some vals' \<Rightarrow>
          Some (vals',
                parts @ [js_toString start @ ''-'' @ js_toString end @
                         (if truthy (snd (split_step segment))
                          then '' every '' @ js_toString (step_num (snd (split_step segment)))
                          else [])],
                oor @
                (if js_lt start (Num (min_v (FIELDS fn))) \<or> js_gt start (Num (max_v (FIELDS fn)))
                 then [start] else []) @
                (if js_lt end (Num (min_v (FIELDS fn))) \<or> js_gt end (Num (max_v (FIELDS fn)))
                 then [end] else [])))"
  using assms
  by (cases "range_loop (fn = DayOfWeek) (Num (min_v (FIELDS fn))) (Num (max_v (FIELDS fn)))
             start end (step_num (snd (split_step segment))) vals")
     (simp_all add: parse_segment_def Let_def del: One_nat_def)

lemma parse_segment_single:
  assumes "fst (split_step segment) = rg" "rg \<noteq> ''*''" "CHR ''-'' \<notin> set rg"
    and "parseInt rg = originalVal"
  shows "parse_segment fn (vals, parts, oor) segment =
     (if js_lt originalVal (Num (min_v (FIELDS fn))) \<or>
         (js_gt originalVal (Num (max_v (FIELDS fn))) \<and>
          \<not> (fn = DayOfWeek \<and> originalVal = Num 7))
      then Some (vals, parts @ [js_toString originalVal], oor @ [originalVal])
      else Some (set_add (if originalVal = Num 7 \<and> fn = DayOfWeek then Num 0 else originalVal) vals,
                 parts @ [js_toString originalVal], oor))"
  using assms by (simp add: parse_segment_def Let_def)

lemma parse_segment_wildcard_result:
  assumes "parse_segment fn (vals, parts, oor) segment = Some (vals', parts', oor')"
    and "fst (split_step segment) = ''*''"
  shows "wildcard_loop (Num (min_v (FIELDS fn))) (Num (max_v (FIELDS fn)))
           (step_num (snd (split_step segment))) vals = Some vals' \<and> oor' = oor"
proof (cases "wildcard_loop (Num (min_v (FIELDS fn))) (Num (max_v (FIELDS fn)))
           (step_num (snd (split_step segment))) vals")
  case None
  with assms show ?thesis by (simp add: parse_segment_wildcard)
next
  case (Some r)
  with assms show ?thesis by (simp add: parse_segment_wildcard)
qed

lemma parse_segment_range_result:
  assumes "parse_segment fn (vals, parts, oor) segment = Some (vals', parts', oor')"
    and "fst (split_step segment) = rg" "rg \<noteq> ''*''" "CHR ''-'' \<in> set rg"
    and "parseInt (split_on CHR ''-'' rg ! 0) = start"
    and "parseInt (split_on CHR ''-'' rg ! 1) = end"
  shows "range_loop (fn = DayOfWeek) (Num (min_v (FIELDS fn))) (Num (max_v (FIELDS fn)))
           start end (step_num (snd (split_step segment))) vals = Some vals' \<and>
         oor' = oor @
           (if js_lt start (Num (min_v (FIELDS fn))) \<or> js_gt start (Num (max_v (FIELDS fn)))
            then [start] else []) @
           (if js_lt end (Num (min_v (FIELDS fn))) \<or> js_gt end (Num (max_v (FIELDS fn)))
            then [end] else [])"
proof (cases "range_loop (fn = DayOfWeek) (Num (min_v (FIELDS fn))) (Num (max_v (FIELDS fn)))
           start end (step_num (snd (split_step segment))) vals")
  case None
  with assms(1) show ?thesis
    by (simp add: parse_segment_range[OF assms(2-6)])
next
  case (Some r)
  with assms(1) show ?thesis
    by (simp add: parse_segment_range[OF assms(2-6)])
qed

lemma if_either: "(if c then A else B) = A \<or> (if c then A else B) = B"
  by simp

lemma parse_segment_keeps:
  assumes "parse_segment fn (vals, parts, oor) segment = Some (vals', parts', oor')"
  shows "set vals \<subseteq> set vals' \<and> set oor \<subseteq> set oor'"
proof (cases "fst (split_step segment) = ''*''")
  case True
  from parse_segment_wildcard_result[OF assms True]
  have 1: "wildcard_loop (Num (min_v (FIELDS fn))) (Num (max_v (FIELDS fn)))
           (step_num (snd (split_step segment))) vals = Some vals'" and 2: "oor' = oor"
    by simp_all
  from wildcard_loop_keeps[OF 1] 2 show ?thesis by simp
next
  case False
  show ?thesis
  proof (cases "CHR ''-'' \<in> set (fst (split_step segment))")
    case True
    note r = parse_segment_range_result[OF assms refl False True refl refl]
    from r have 1: "range_loop (fn = DayOfWeek) (Num (min_v (FIELDS fn))) (Num (max_v (FIELDS fn)))
           (parseInt (split_on CHR ''-'' (fst (split_step segment)) ! 0))
           (parseInt (split_on CHR ''-'' (fst (split_step segment)) ! 1))
           (step_num (snd (split_step segment))) vals = Some vals'" ..
    from r have "\<exists>x. oor' = oor @ x" by blast
    with range_loop_keeps[OF 1] show ?thesis by auto
  next
    case single: False
    have "parse_segment fn (vals, parts, oor) segment =
       Some (vals, parts @ [js_toString (parseInt (fst (split_step segment)))],
             oor @ [parseInt (fst (split_step segment))]) \<or>
       parse_segment fn (vals, parts, oor) segment =
       Some (set_add (if parseInt (fst (split_step segment)) = Num 7 \<and> fn = DayOfWeek
                      then Num 0 else parseInt (fst (split_step segment))) vals,
             parts @ [js_toString (parseInt (fst (split_step segment)))], oor)"
      unfolding parse_segment_single[OF refl False single refl] by (rule if_either)
    with assms show ?thesis by auto
  qed
qed

lemma parse_segments_Cons_Some:
  assumes "parse_segments fn st (segment # rest) = Some st'"
  shows "\<exists>st1. parse_segment fn st segment = Some st1 \<and> parse_segments fn st1 rest = Some st'"
  using assms by (cases "parse_segment fn st segment") simp_all

lemma parse_segments_keeps:
  assumes "parse_segments fn (vals, parts, oor) segments = Some (vals', parts', oor')"
  shows "set vals \<subseteq> set vals' \<and> set oor \<subseteq> set oor'"
  using assms
proof (induction segments arbitrary: vals parts oor)
  case Nil
  then show ?case by simp
next
  case (Cons segment rest)
  from parse_segments_Cons_Some[OF Cons.prems] obtain st1 where
    1: "parse_segment fn (vals, parts, oor) segment = Some st1"
    and 2: "parse_segments fn st1 rest = Some (vals', parts', oor')" by blast
  obtain v1 p1 o1 where st1: "st1 = (v1, p1, o1)" by (metis prod_cases3)
  from parse_segment_keeps[OF 1[unfolded st1]] Cons.IH[OF 2[unfolded st1]]
  show ?case by blast
qed

text \<open>Every segment of a field is parsed from some state, and what it adds is kept.\<close>

lemma parse_segments_member:
  assumes "parse_segments fn st segments = Some (vals', parts', oor')" "segment \<in> set segments"
  shows "\<exists>v0 p0 o0 v1 p1 o1. parse_segment fn (v0, p0, o0) segment = Some (v1, p1, o1) \<and>
           set v1 \<subseteq> set vals' \<and> set o1 \<subseteq> set oor'"
  using assms
proof (induction segments arbitrary: st)
  case Nil
  then show ?case by simp
next
  case (Cons s rest)
  from parse_segments_Cons_Some[OF Cons.prems(1)] obtain st1 where
    1: "parse_segment fn st s = Some st1"
    and 2: "parse_segments fn st1 rest = Some (vals', parts', oor')" by blast
  obtain vals parts oor where st: "st = (vals, parts, oor)" by (metis prod_cases3)
  obtain v1 p1 o1 where st1: "st1 = (v1, p1, o1)" by (metis prod_cases3)
  show ?case
  proof (cases "segment = s")
    case True
    from parse_segments_keeps[OF 2[unfolded st1]] 1[unfolded st st1] True
    show ?thesis by blast
  next
    case False
    with Cons.prems(2) have "segment \<in> set rest" by simp
    from Cons.IH[OF 2 this] show ?thesis .
  qed
qed

lemma parseField_Some:
  assumes "parseField field fn = Some parsed"
  shows "\<exists>vals parts oor.
           parse_segments fn ([], [], []) (segments_of fn field) = Some (vals, parts, oor) \<and>
           parsed = \<lparr>values = js_sort vals, raw = field, description = join '', '' parts,
                     outOfRange = oor\<rparr>"
proof (cases "parse_segments fn ([], [], []) (segments_of fn field)")
  case None
  with assms show ?thesis by (simp add: parseField_def segments_of_def)
next
  case (Some st)
  obtain vals parts oor where "st = (vals, parts, oor)" by (metis prod_cases3)
  with Some assms show ?thesis by (simp add: parseField_def segments_of_def)
qed

lemma parseField_member:
  assumes "parseField field fn = Some parsed" "segment \<in> set (segments_of fn field)"
  shows "\<exists>v0 p0 o0 v1 p1 o1. parse_segment fn (v0, p0, o0) segment = Some (v1, p1, o1) \<and>
           set v1 \<subseteq> set (values parsed) \<and> set o1 \<subseteq> set (outOfRange parsed)"
proof -
  from parseField_Some[OF assms(1)] obtain vals parts oor where
    1: "parse_segments fn ([], [], []) (segments_of fn field) = Some (vals, parts, oor)"
    and 2: "parsed = \<lparr>values = js_sort vals, raw = field, description = join '', '' parts,
                      outOfRange = oor\<rparr>"
    by blast
  from parse_segments_member[OF 1 assms(2)] 2 show ?thesis by simp
qed

text \<open>What a segment that is a single value adds.\<close>

lemma parseField_records_value:
  assumes "parseField field fn = Some parsed" "segment \<in> set (segments_of fn field)"
    and "fst (split_step segment) = rg" "rg \<noteq> ''*''" "CHR ''-'' \<notin> set rg"
    and "parseInt rg = Num n" "n < min_v (FIELDS fn) \<or> max_v (FIELDS fn) < n"
  shows "Num n \<in> set (outOfRange parsed)"
proof -
  from parseField_member[OF assms(1,2)] obtain v0 p0 o0 v1 p1 o1 where
    1: "parse_segment fn (v0, p0, o0) segment = Some (v1, p1, o1)"
    and 2: "set o1 \<subseteq> set (outOfRange parsed)" by blast
  have "n \<noteq> 7 \<or> fn \<noteq> DayOfWeek" using assms(7) by (cases fn) auto
  with assms(7) have "parse_segment fn (v0, p0, o0) segment =
      Some (v0, p0 @ [js_toString (Num n)], o0 @ [Num n])"
    by (auto simp add: parse_segment_single[OF assms(3,4,5,6)] js_gt_def)
  with 1 2 show ?thesis by auto
qed

lemma parseField_keeps_value:
  assumes "parseField field fn = Some parsed" "segment \<in> set (segments_of fn field)"
    and "fst (split_step segment) = rg" "rg \<noteq> ''*''" "CHR ''-'' \<notin> set rg"
    and "parseInt rg = Num n" "min_v (FIELDS fn) \<le> n" "n \<le> max_v (FIELDS fn)"
  shows "Num (norm7 (fn = DayOfWeek) n) \<in> set (values parsed)"
proof -
  from parseField_member[OF assms(1,2)] obtain v0 p0 o0 v1 p1 o1 where
    1: "parse_segment fn (v0, p0, o0) segment = Some (v1, p1, o1)"
    and 2: "set v1 \<subseteq> set (values parsed)" by blast
  from assms(7,8) have "parse_segment fn (v0, p0, o0) segment =
      Some (set_add (Num (norm7 (fn = DayOfWeek) n)) v0, p0 @ [js_toString (Num n)], o0)"
    by (auto simp add: parse_segment_single[OF assms(3,4,5,6)] js_gt_def norm7_def)
  with 1 2 show ?thesis by auto
qed

text \<open>What a segment that is a range adds.\<close>

lemma parseField_records_bounds:
  assumes "parseField field fn = Some parsed" "segment \<in> set (segments_of fn field)"
    and "fst (split_step segment) = rg" "rg \<noteq> ''*''" "CHR ''-'' \<in> set rg"
    and "parseInt (split_on CHR ''-'' rg ! 0) = Num a"
    and "parseInt (split_on CHR ''-'' rg ! 1) = Num b"
  shows "(a < min_v (FIELDS fn) \<or> max_v (FIELDS fn) < a \<longrightarrow> Num a \<in> set (outOfRange parsed)) \<and>
         (b < min_v (FIELDS fn) \<or> max_v (FIELDS fn) < b \<longrightarrow> Num b \<in> set (outOfRange parsed))"
proof -
  from parseField_member[OF assms(1,2)] obtain v0 p0 o0 v1 p1 o1 where
    1: "parse_segment fn (v0, p0, o0) segment = Some (v1, p1, o1)"
    and 2: "set o1 \<subseteq> set (outOfRange parsed)" by blast
  from parse_segment_range_result[OF 1 assms(3-7)]
  have "o1 = o0 @
           (if js_lt (Num a) (Num (min_v (FIELDS fn))) \<or> js_gt (Num a) (Num (max_v (FIELDS fn)))
            then [Num a] else []) @
           (if js_lt (Num b) (Num (min_v (FIELDS fn))) \<or> js_gt (Num b) (Num (max_v (FIELDS fn)))
            then [Num b] else [])" ..
  then have "(a < min_v (FIELDS fn) \<or> max_v (FIELDS fn) < a \<longrightarrow> Num a \<in> set o1) \<and>
             (b < min_v (FIELDS fn) \<or> max_v (FIELDS fn) < b \<longrightarrow> Num b \<in> set o1)"
    by (auto simp: js_gt_def)
  with 2 show ?thesis by blast
qed

lemma parseField_keeps_range:
  assumes "parseField field fn = Some parsed" "segment \<in> set (segments_of fn field)"
    and "fst (split_step segment) = rg" "rg \<noteq> ''*''" "CHR ''-'' \<in> set rg"
    and "parseInt (split_on CHR ''-'' rg ! 0) = Num a"
    and "parseInt (split_on CHR ''-'' rg ! 1) = Num b"
    and "step_num (snd (split_step segment)) = Num c" "0 < c"
    and "a \<le> k" "k \<le> b" "c dvd (k - a)" "min_v (FIELDS fn) \<le> k" "k \<le> max_v (FIELDS fn)"
  shows "Num (norm7 (fn = DayOfWeek) k) \<in> set (values parsed)"
proof -
  from parseField_member[OF assms(1,2)] obtain v0 p0 o0 v1 p1 o1 where
    1: "parse_segment fn (v0, p0, o0) segment = Some (v1, p1, o1)"
    and 2: "set v1 \<subseteq> set (values parsed)" by blast
  from parse_segment_range_result[OF 1 assms(3-7)] assms(8)
  have 3: "range_loop (fn = DayOfWeek) (Num (min_v (FIELDS fn))) (Num (max_v (FIELDS fn)))
           (Num a) (Num b) (Num c) v0 = Some v1" by simp
  from range_loop_positive[OF assms(9), of "fn = DayOfWeek" "min_v (FIELDS fn)"
         "max_v (FIELDS fn)" a b v0] 3
  have "set v1 = set v0 \<union> Num ` norm7 (fn = DayOfWeek) `
          {k. a \<le> k \<and> k \<le> b \<and> c dvd (k - a) \<and> min_v (FIELDS fn) \<le> k \<and> k \<le> max_v (FIELDS fn)}"
    by simp
  with assms(10-14) have "Num (norm7 (fn = DayOfWeek) k) \<in> set v1" by blast
  with 2 show ?thesis by blast
qed

section \<open>Properties of the scheduler\<close>

text \<open>The loop visits the minutes \<open>current, current + 1 min, ...\<close>, at most
  \<open>maxIterations\<close> of them, and keeps the first \<open>count\<close> that match.\<close>

lemma candidates_Suc: "candidates current (Suc n) = current # candidates (plus_minute current) n"
  unfolding candidates_def map_upt_Suc
  by (simp add: plus_minute_def algebra_simps)

lemma occurrences_loop_closed:
  "length occurrences \<le> count \<Longrightarrow>
   occurrences_loop timezone fs count occurrences iterations current =
     occurrences @ take (count - length occurrences)
       (filter (matches timezone fs) (candidates current (maxIterations - iterations)))"
proof (induction timezone fs count occurrences iterations current rule: occurrences_loop.induct)
  case (1 timezone fs count occurrences iterations current)
  show ?case
  proof (cases "length occurrences < count \<and> iterations < maxIterations")
    case True
    then obtain n where n: "maxIterations - iterations = Suc n" "maxIterations - (iterations + 1) = n"
      by (metis Suc_diff_Suc Suc_eq_plus1 diff_Suc_eq_diff_pred diff_Suc_1)
    obtain d where d: "count - length occurrences = Suc d"
      using True by (metis Suc_diff_Suc)
    have "length (if matches timezone fs current then occurrences @ [current] else occurrences)
            \<le> count"
      using True by simp
    moreover from d have "count - Suc (length occurrences) = d" by arith
    ultimately show ?thesis using 1(1)[OF True] True n d
      by (subst occurrences_loop.simps) (simp add: candidates_Suc)
  next
    case False
    with 1(2) have "count - length occurrences = 0 \<or> maxIterations - iterations = 0" by auto
    with False show ?thesis
      by (subst occurrences_loop.simps) (auto simp: candidates_def)
  qed
qed

lemma candidates_sorted: "sorted_wrt (<) (candidates current n)"
  by (simp add: candidates_def sorted_wrt_map sorted_wrt_iff_nth_less)

lemma candidates_ge: "t \<in> set (candidates current n) \<Longrightarrow> current \<le> t"
  by (auto simp: candidates_def)

lemma sorted_wrt_take_filter:
  "sorted_wrt (<) (xs :: int list) \<Longrightarrow> sorted_wrt (<) (take n (filter P xs))"
  by (simp add: sorted_wrt_filter sorted_wrt_take)

lemma startOf_minute_after:
  assumes "0 \<le> dt_second (timezone (plus_minute from)) * 1000 + dt_millisecond (timezone (plus_minute from))"
      and "dt_second (timezone (plus_minute from)) * 1000 + dt_millisecond (timezone (plus_minute from)) < 60000"
  shows "from < startOf_minute timezone (plus_minute from)"
  using assms by (simp add: startOf_minute_def plus_minute_def)

lemma getNextOccurrences_returns:
  assumes p: "parse expr = Some parsed"
      and lo: "0 \<le> dt_second (timezone (plus_minute from)) * 1000 + dt_millisecond (timezone (plus_minute from))"
      and hi: "dt_second (timezone (plus_minute from)) * 1000 + dt_millisecond (timezone (plus_minute from)) < 60000"
  shows "\<exists>occ. getNextOccurrences expr count timezone from = Some occ \<and>
               length occ \<le> count \<and> sorted_wrt (<) occ \<and> (\<forall>t \<in> set occ. from < t) \<and>
               (\<not> valid parsed \<or> isReboot parsed \<longrightarrow> occ = [])"
proof (cases "\<not> valid parsed \<or> isReboot parsed")
  case True
  with p show ?thesis by (simp add: getNextOccurrences_def)
next
  case False
  then obtain v orig fs errs where e: "parsed = Expression v orig fs errs"
    by (cases parsed) auto
  let ?c = "startOf_minute timezone (plus_minute from)"
  let ?occ = "take count (filter (matches timezone fs) (candidates ?c maxIterations))"
  have g: "getNextOccurrences expr count timezone from = Some ?occ"
    using p False e by (simp add: getNextOccurrences_def occurrences_loop_closed)
  have "\<forall>t \<in> set ?occ. from < t"
  proof
    fix t assume "t \<in> set ?occ"
    then have "t \<in> set (candidates ?c maxIterations)"
      by (meson in_set_takeD filter_is_subset subsetD)
    from candidates_ge[OF this] startOf_minute_after[of timezone "from", OF lo hi]
    show "from < t" by simp
  qed
  moreover have "sorted_wrt (<) ?occ"
    by (rule sorted_wrt_take_filter[OF candidates_sorted])
  ultimately show ?thesis using g False by simp
qed

lemma getNextOccurrences_all_match:
  assumes "getNextOccurrences expr count timezone from = Some occ"
      and "parse expr = Some (Expression True orig fs errs)"
      and "t \<in> set occ"
  shows "matches timezone fs t"
proof -
  from assms(1,2) have
    "occ = take count (filter (matches timezone fs)
             (candidates (startOf_minute timezone (plus_minute from)) maxIterations))"
    by (simp add: getNextOccurrences_def occurrences_loop_closed)
  with assms(3) show ?thesis
    by (metis in_set_takeD mem_Collect_eq set_filter)
qed

text \<open>
  Claim C1. The scheduler is said to return, for every expression string, a list of at most
  \<open>count\<close> strictly increasing instants later than \<open>from\<close>. Wherever \<open>parse\<close> returns this
  holds (\<open>getNextOccurrences_returns\<close>). The expression \<open>*/0 * * * *\<close> is one on which
  \<open>parse\<close> does not return, so the scheduler, which parses first, returns no list at all.
\<close>

theorem getNextOccurrences_step_zero:
  "getNextOccurrences ''*/0 * * * *'' count timezone from = None"
proof -
  have "parse_plain ''*/0 * * * *'' = None"
  proof -
    have "split_ws (trim ''*/0 * * * *'') = [''*/0'', ''*'', ''*'', ''*'', ''*'']"
      by code_simp
    then show ?thesis
      by (simp add: parse_plain_def star_zero)
  qed
  moreover have "take 1 (trim ''*/0 * * * *'') \<noteq> ''@''"
    by code_simp
  ultimately have "parse ''*/0 * * * *'' = None"
    by (simp add: parse_def)
  then show ?thesis
    by (simp add: getNextOccurrences_def)
qed

theorem getNextOccurrences_step_zero_witness:
  "getNextOccurrences ''*/0 * * * *'' 5
     (\<lambda>ts. \<lparr>dt_month = 1, dt_day = 1, dt_weekday = 4, dt_hour = 0, dt_minute = 0,
            dt_second = 0, dt_millisecond = 0\<rparr>) 0 = None"
  by (rule getNextOccurrences_step_zero)

text \<open>
  Claim C2. For every valid parsed expression other than the reboot sentinel the fields
  exist, and for every candidate the day clause is: true when both raw texts are \<open>*\<close>;
  membership in the day-of-week values when only the day of month is \<open>*\<close>; membership in
  the day-of-month values when only the day of week is \<open>*\<close>; one or the other membership
  when neither is. A candidate minute is accepted exactly when its minute, hour and month
  are members and the day clause holds for its local day and its weekday modulo 7.
\<close>

theorem day_clause:
  assumes "parse expr = Some parsed" and "valid parsed" and "\<not> isReboot parsed"
  shows "\<exists>fs. fields_of parsed = Some fs \<and>
           (raw (dayOfMonth fs) = ''*'' \<and> raw (dayOfWeek fs) = ''*'' \<longrightarrow> dayMatch fs dayOfMonth_now dayOfWeek_now) \<and>
           (raw (dayOfMonth fs) = ''*'' \<and> raw (dayOfWeek fs) \<noteq> ''*'' \<longrightarrow>
              dayMatch fs dayOfMonth_now dayOfWeek_now = includes_v (values (dayOfWeek fs)) dayOfWeek_now) \<and>
           (raw (dayOfMonth fs) \<noteq> ''*'' \<and> raw (dayOfWeek fs) = ''*'' \<longrightarrow>
              dayMatch fs dayOfMonth_now dayOfWeek_now = includes_v (values (dayOfMonth fs)) dayOfMonth_now) \<and>
           (raw (dayOfMonth fs) \<noteq> ''*'' \<and> raw (dayOfWeek fs) \<noteq> ''*'' \<longrightarrow>
              dayMatch fs dayOfMonth_now dayOfWeek_now =
                (includes_v (values (dayOfMonth fs)) dayOfMonth_now \<or> includes_v (values (dayOfWeek fs)) dayOfWeek_now)) \<and>
           (\<forall>timezone t. matches timezone fs t =
              (includes_v (values (minute fs)) (dt_minute (timezone t)) \<and>
               includes_v (values (hour fs)) (dt_hour (timezone t)) \<and>
               dayMatch fs (dt_day (timezone t)) (dt_weekday (timezone t) mod 7) \<and>
               includes_v (values (month fs)) (dt_month (timezone t))))"
proof -
  from assms(2,3) obtain v orig fs errs where "parsed = Expression v orig fs errs"
    by (cases parsed) auto
  then have "fields_of parsed = Some fs" by simp
  then show ?thesis
    by (auto simp: dayMatch_def matches_def Let_def)
qed

lemma example_both_wild:
  "case parse ''0 9 * * *'' of
     Some p \<Rightarrow> valid p \<and> \<not> isReboot p \<and>
       (case fields_of p of
          Some fs \<Rightarrow> raw (dayOfMonth fs) = ''*'' \<and> raw (dayOfWeek fs) = ''*''
        | None \<Rightarrow> False)
   | None \<Rightarrow> False"
  by code_simp

lemma example_dom_wild:
  "case parse ''0 9 * * 1-5'' of
     Some p \<Rightarrow> valid p \<and> \<not> isReboot p \<and>
       (case fields_of p of
          Some fs \<Rightarrow> raw (dayOfMonth fs) = ''*'' \<and> raw (dayOfWeek fs) \<noteq> ''*'' \<and>
                     includes_v (values (dayOfWeek fs)) 3
        | None \<Rightarrow> False)
   | None \<Rightarrow> False"
  by code_simp

lemma example_dow_wild:
  "case parse ''0 9 15 * *'' of
     Some p \<Rightarrow> valid p \<and> \<not> isReboot p \<and>
       (case fields_of p of
          Some fs \<Rightarrow> raw (dayOfMonth fs) \<noteq> ''*'' \<and> raw (dayOfWeek fs) = ''*'' \<and>
                     \<not> includes_v (values (dayOfMonth fs)) 20
        | None \<Rightarrow> False)
   | None \<Rightarrow> False"
  by code_simp

lemma example_neither_wild:
  "case parse ''0 9 13 * 5'' of
     Some p \<Rightarrow> valid p \<and> \<not> isReboot p \<and>
       (case fields_of p of
          Some fs \<Rightarrow> raw (dayOfMonth fs) \<noteq> ''*'' \<and> raw (dayOfWeek fs) \<noteq> ''*'' \<and>
                     \<not> includes_v (values (dayOfMonth fs)) 20 \<and>
                     includes_v (values (dayOfWeek fs)) 5
        | None \<Rightarrow> False)
   | None \<Rightarrow> False"
  by code_simp

theorem day_clause_witness:
  "(\<exists>p fs. parse ''0 9 * * *'' = Some p \<and> fields_of p = Some fs \<and> dayMatch fs 20 3) \<and>
   (\<exists>p fs. parse ''0 9 * * 1-5'' = Some p \<and> fields_of p = Some fs \<and> dayMatch fs 20 3) \<and>
   (\<exists>p fs. parse ''0 9 15 * *'' = Some p \<and> fields_of p = Some fs \<and> \<not> dayMatch fs 20 3) \<and>
   (\<exists>p fs. parse ''0 9 13 * 5'' = Some p \<and> fields_of p = Some fs \<and> dayMatch fs 20 5)"
proof (intro conjI)
  from example_both_wild obtain p fs where
    h: "parse ''0 9 * * *'' = Some p" "valid p" "\<not> isReboot p" "fields_of p = Some fs"
       "raw (dayOfMonth fs) = ''*''" "raw (dayOfWeek fs) = ''*''"
    by (auto split: option.splits)
  from day_clause[OF h(1,2,3), of 20 3] h
  show "\<exists>p fs. parse ''0 9 * * *'' = Some p \<and> fields_of p = Some fs \<and> dayMatch fs 20 3"
    by auto
next
  from example_dom_wild obtain p fs where
    h: "parse ''0 9 * * 1-5'' = Some p" "valid p" "\<not> isReboot p" "fields_of p = Some fs"
       "raw (dayOfMonth fs) = ''*''" "raw (dayOfWeek fs) \<noteq> ''*''"
       "includes_v (values (dayOfWeek fs)) 3"
    by (auto split: option.splits)
  from day_clause[OF h(1,2,3), of 20 3] h
  show "\<exists>p fs. parse ''0 9 * * 1-5'' = Some p \<and> fields_of p = Some fs \<and> dayMatch fs 20 3"
    by auto
next
  from example_dow_wild obtain p fs where
    h: "parse ''0 9 15 * *'' = Some p" "valid p" "\<not> isReboot p" "fields_of p = Some fs"
       "raw (dayOfMonth fs) \<noteq> ''*''" "raw (dayOfWeek fs) = ''*''"
       "\<not> includes_v (values (dayOfMonth fs)) 20"
    by (auto split: option.splits)
  from day_clause[OF h(1,2,3), of 20 3] h
  show "\<exists>p fs. parse ''0 9 15 * *'' = Some p \<and> fields_of p = Some fs \<and> \<not> dayMatch fs 20 3"
    by auto
next
  from example_neither_wild obtain p fs where
    h: "parse ''0 9 13 * 5'' = Some p" "valid p" "\<not> isReboot p" "fields_of p = Some fs"
       "raw (dayOfMonth fs) \<noteq> ''*''" "raw (dayOfWeek fs) \<noteq> ''*''"
       "\<not> includes_v (values (dayOfMonth fs)) 20" "includes_v (values (dayOfWeek fs)) 5"
    by (auto split: option.splits)
  from day_clause[OF h(1,2,3), of 20 5] h
  show "\<exists>p fs. parse ''0 9 13 * 5'' = Some p \<and> fields_of p = Some fs \<and> dayMatch fs 20 5"
    by auto
qed

section \<open>Sunday as 0 and 7\<close>

lemma sunday_0_and_7:
  "map_option (values \<circ> dayOfWeek) (parse ''0 0 * * 0'' \<bind> fields_of) = Some [Num 0] \<and>
   map_option (values \<circ> dayOfWeek) (parse ''0 0 * * 7'' \<bind> fields_of) = Some [Num 0] \<and>
   map_option values (parseField ''5-7'' DayOfWeek) = Some [Num 0, Num 5, Num 6]"
  by code_simp

text \<open>Without a wild-card segment no 7 reaches the values of the day of the week.\<close>

lemma parse_segment_no_7:
  assumes "parse_segment DayOfWeek (vals, parts, oor) segment = Some (vals', parts', oor')"
    and "fst (split_step segment) \<noteq> ''*''" "Num 7 \<notin> set vals"
  shows "Num 7 \<notin> set vals'"
proof (cases "CHR ''-'' \<in> set (fst (split_step segment))")
  case True
  from parse_segment_range_result[OF assms(1) refl assms(2) True refl refl]
  have "range_loop True (Num (min_v (FIELDS DayOfWeek))) (Num (max_v (FIELDS DayOfWeek)))
           (parseInt (split_on CHR ''-'' (fst (split_step segment)) ! 0))
           (parseInt (split_on CHR ''-'' (fst (split_step segment)) ! 1))
           (step_num (snd (split_step segment))) vals = Some vals'" by simp
  from range_loop_no_7[OF this TrueI assms(3)] show ?thesis .
next
  case False
  have "parse_segment DayOfWeek (vals, parts, oor) segment =
       Some (vals, parts @ [js_toString (parseInt (fst (split_step segment)))],
             oor @ [parseInt (fst (split_step segment))]) \<or>
       parse_segment DayOfWeek (vals, parts, oor) segment =
       Some (set_add (if parseInt (fst (split_step segment)) = Num 7 \<and> DayOfWeek = DayOfWeek
                      then Num 0 else parseInt (fst (split_step segment))) vals,
             parts @ [js_toString (parseInt (fst (split_step segment)))], oor)"
    unfolding parse_segment_single[OF refl assms(2) False refl] by (rule if_either)
  moreover have "(if parseInt (fst (split_step segment)) = Num 7 \<and> DayOfWeek = DayOfWeek
                  then Num 0 else parseInt (fst (split_step segment))) \<noteq> Num 7"
    by simp
  ultimately show ?thesis using assms(1,3) by auto
qed

lemma parse_segments_no_7:
  assumes "parse_segments DayOfWeek (vals, parts, oor) segments = Some (vals', parts', oor')"
    and "\<And>segment. segment \<in> set segments \<Longrightarrow> fst (split_step segment) \<noteq> ''*''"
    and "Num 7 \<notin> set vals"
  shows "Num 7 \<notin> set vals'"
  using assms
proof (induction segments arbitrary: vals parts oor)
  case Nil
  then show ?case by simp
next
  case (Cons segment rest)
  from parse_segments_Cons_Some[OF Cons.prems(1)] obtain st1 where
    1: "parse_segment DayOfWeek (vals, parts, oor) segment = Some st1"
    and 2: "parse_segments DayOfWeek st1 rest = Some (vals', parts', oor')" by blast
  obtain v1 p1 o1 where st1: "st1 = (v1, p1, o1)" by (metis prod_cases3)
  have "fst (split_step segment) \<noteq> ''*''" using Cons.prems(2) by simp
  from parse_segment_no_7[OF 1[unfolded st1] this Cons.prems(3)]
  have "Num 7 \<notin> set v1" .
  from Cons.IH[OF 2[unfolded st1] _ this] Cons.prems(2) show ?case by simp
qed

lemma parseField_no_7:
  assumes "parseField field DayOfWeek = Some parsed"
    and "\<And>segment. segment \<in> set (segments_of DayOfWeek field) \<Longrightarrow>
           fst (split_step segment) \<noteq> ''*''"
  shows "Num 7 \<notin> set (values parsed)"
proof -
  from parseField_Some[OF assms(1)] obtain vals parts oor where
    1: "parse_segments DayOfWeek ([], [], []) (segments_of DayOfWeek field) = Some (vals, parts, oor)"
    and 2: "parsed = \<lparr>values = js_sort vals, raw = field, description = join '', '' parts,
                      outOfRange = oor\<rparr>"
    by blast
  from parse_segments_no_7[OF 1 assms(2)] have "Num 7 \<notin> set vals" by simp
  with 2 show ?thesis by simp
qed

text \<open>
  Claim C3. A 7 in the day-of-week field is said to be stored as 0, standing alone and as
  the end of a range, so that 7 never occurs among the values. Alone and in a range it is
  stored as 0 (\<open>sunday_0_and_7\<close>), and a field without a wild-card segment never has 7
  among its values (\<open>parseField_no_7\<close>). The wild-card branch adds every number from
  \<open>min\<close> to \<open>max\<close> as it is, and \<open>max\<close> is 7 for the day of the week: the values of \<open>*\<close>
  contain 7.
\<close>

theorem wildcard_dayOfWeek_has_7:
  "map_option (values \<circ> dayOfWeek) (parse ''* * * * *'' \<bind> fields_of) =
     Some [Num 0, Num 1, Num 2, Num 3, Num 4, Num 5, Num 6, Num 7]"
  by code_simp

section \<open>The generator's phrase table\<close>

lemma weekdays_at_3pm_time: "(at_time ''weekdays at 3pm'' \<bind> parseTime) = Some (15, 0)"
  by code_simp

text \<open>The entry found in the table is returned as it is, whatever the time clause.\<close>

lemma PATTERNS_distinct: "distinct (map fst PATTERNS)"
  by (simp add: PATTERNS_def)

lemma direct_returns_template:
  assumes "(pattern, cron) \<in> set PATTERNS"
  shows "direct text input pattern cron = Success cron (generated_from text)"
proof -
  from assms PATTERNS_distinct have "map_of PATTERNS pattern = Some cron"
    by (rule map_of_is_SomeI[rotated])
  then show ?thesis
    by (simp add: direct_def split: option.splits)
qed

lemma generate_phrase_template:
  assumes "find (\<lambda>(pattern, cron). trim (toLowerCase text) = pattern \<or>
                   includes_s (trim (toLowerCase text)) pattern) PATTERNS = Some (pattern, cron)"
  shows "generate text = Success cron (generated_from text)"
proof -
  from assms have "(pattern, cron) \<in> set PATTERNS"
    by (auto simp: find_Some_iff in_set_conv_nth)
  from direct_returns_template[OF this] assms show ?thesis
    by (simp add: generate_def)
qed

text \<open>
  Claim C4. For an input that contains a phrase of the table and a time clause the template
  is said to be returned with minute and hour replaced by the time. The guard of that
  replacement compares the template with the table's entry under the same key, which is the
  template itself, so the replacement never happens (\<open>generate_phrase_template\<close>):
  \<open>weekdays at 3pm\<close> gives the template \<open>0 9 * * 1-5\<close> although its time clause parses
  to 15:00.
\<close>

theorem generate_weekdays_at_3pm: "expression (generate ''weekdays at 3pm'') = Some ''0 9 * * 1-5''"
  by code_simp

section \<open>AWS day of week\<close>

text \<open>A token is left alone exactly when \<open>parseInt\<close> finds no number at its front.\<close>

lemma remap_dow_not_a_number: "parseInt d = NaN \<Longrightarrow> remap_dow d = d"
  by (simp add: remap_dow_def)

lemma remap_dow_number:
  "parseInt d = Num n \<Longrightarrow> remap_dow d = int_toString (if n = 1 then 0 else n - 1)"
  by (simp add: remap_dow_def)

lemma remap_examples:
  "remap_dow ''1'' = ''0'' \<and> remap_dow ''7'' = ''6'' \<and> remap_dow ''MON'' = ''MON'' \<and>
   remap_dow ''2-6'' = ''1'' \<and> parseInt ''2-6'' = Num 2"
  by code_simp

lemma fromAws_list:
  "fromAws ''cron(0 9 ? * 2,4,MON *)'' = Some (Converted ''cron'' ''0 9 * * 1,3,MON'')"
  by code_simp

text \<open>
  Claim C6. A token of the AWS day-of-week field that is no number, such as the range
  \<open>2-6\<close>, is said to be left unchanged. Numbers are mapped one by one and names are left
  alone (\<open>fromAws_list\<close>), but \<open>parseInt\<close> reads the leading digits of \<open>2-6\<close> as 2, so the
  token is replaced by \<open>1\<close> and the range is lost.
\<close>

theorem fromAws_range_token: "fromAws ''cron(0 9 ? * 2-6 *)'' = Some (Converted ''cron'' ''0 9 * * 1'')"
  by code_simp

section \<open>The raw text of a field\<close>

text \<open>
  Claim C7. The \<open>raw\<close> of a parsed field is said to be the text after name substitution,
  \<open>1-5\<close> for \<open>mon-fri\<close>. The code stores the field as it was given.
\<close>

theorem raw_mon_fri_counterexample:
  "map_option raw (parseField ''mon-fri'' DayOfWeek) = Some ''mon-fri'' \<and>
   map_option raw (parseField ''mon-fri'' DayOfWeek) \<noteq> Some ''1-5''"
  by code_simp

text \<open>
  Claim C7, amended. Whenever \<open>parseField\<close> returns, \<open>raw\<close> is the input text itself, with
  neither lower-casing nor name substitution.
\<close>

theorem raw_is_input: "parseField field fn = Some parsed \<Longrightarrow> raw parsed = field"
  by (auto simp: parseField_def Let_def split: option.splits prod.splits)

theorem raw_is_input_witness:
  "parseField ''MON-fri'' DayOfWeek =
     Some \<lparr>values = [Num 1, Num 2, Num 3, Num 4, Num 5], raw = ''MON-fri'',
           description = ''1-5'', outOfRange = []\<rparr> \<and>
   raw \<lparr>values = [Num 1, Num 2, Num 3, Num 4, Num 5], raw = ''MON-fri'',
        description = ''1-5'', outOfRange = []\<rparr> = ''MON-fri''"
proof -
  have h: "parseField ''MON-fri'' DayOfWeek =
     Some \<lparr>values = [Num 1, Num 2, Num 3, Num 4, Num 5], raw = ''MON-fri'',
           description = ''1-5'', outOfRange = []\<rparr>"
    by code_simp
  from raw_is_input[OF h] h show ?thesis by simp
qed

section \<open>Expressions on which the parser does not return\<close>

lemma parse_plain_hour_diverges:
  assumes "split_ws (trim e) = [t0, t1, t2, t3, t4]" "parseField t1 Hour = None"
  shows "parse_plain e = None"
  using assms by (cases "parseField t0 Minute") (simp_all add: parse_plain_def)

lemma parse_plain_minute_diverges:
  assumes "split_ws (trim e) = [t0, t1, t2, t3, t4]" "parseField t0 Minute = None"
  shows "parse_plain e = None"
  using assms by (simp add: parse_plain_def)

lemma parse_not_alias:
  "take 1 (trim e) \<noteq> ''@'' \<Longrightarrow> parse e = parse_plain e"
  by (simp add: parse_def)

text \<open>The phrases of the generator's test and the templates of the table do make the round
  trip.\<close>

lemma tested_phrases_valid:
  "list_all parses_valid
     [''every minute'', ''every 15 minutes'', ''every hour'', ''every day'', ''at noon'',
      ''at midnight'', ''weekdays'', ''every monday'']"
  by code_simp

lemma templates_valid:
  "list_all (\<lambda>(pattern, cron). map_option valid (parse cron) = Some True) PATTERNS"
  by code_simp

text \<open>
  Claim C8. Every expression the generator produces is said to parse as valid. The number
  of \<open>every N minutes\<close> is copied into the step unchecked: for \<open>every 0 minutes\<close> the
  generator produces \<open>*/0 * * * *\<close>, on which \<open>parse\<close> does not return.
\<close>

theorem generate_every_0_minutes:
  "expression (generate ''every 0 minutes'') = Some ''*/0 * * * *'' \<and>
   parse ''*/0 * * * *'' = None"
proof
  show "expression (generate ''every 0 minutes'') = Some ''*/0 * * * *''"
    by code_simp
  have "split_ws (trim ''*/0 * * * *'') = [''*/0'', ''*'', ''*'', ''*'', ''*'']"
    by code_simp
  from parse_plain_minute_diverges[OF this star_zero]
  have "parse_plain ''*/0 * * * *'' = None" .
  moreover have "take 1 (trim ''*/0 * * * *'') \<noteq> ''@''" by code_simp
  ultimately show "parse ''*/0 * * * *'' = None" by (simp add: parse_not_alias)
qed

section \<open>Out-of-range values\<close>

lemma nine_to_99:
  "case parse ''0 9-99 * * *'' of
     Some p \<Rightarrow> \<not> valid p \<and> errors p = [''hour: values out of range (99)''] \<and>
       (case fields_of p of
          Some fs \<Rightarrow> outOfRange (hour fs) = [Num 99] \<and>
                     values (hour fs) = map Num [9, 10, 11, 12, 13, 14, 15, 16, 17, 18, 19, 20, 21, 22, 23] \<and>
                     values (minute fs) = [Num 0] \<and> raw (dayOfMonth fs) = ''*'' \<and>
                     raw (month fs) = ''*'' \<and> raw (dayOfWeek fs) = ''*''
        | None \<Rightarrow> False)
   | None \<Rightarrow> False"
  by code_simp

lemma field_errors_empty: "field_errors fn parsed = [] \<longleftrightarrow> outOfRange parsed = []"
  by (simp add: field_errors_def)

lemma parse_plain_cases:
  assumes "parse_plain e = Some p"
  shows "(\<exists>err sug. p = Structural err sug \<and>
            (length (split_ws (trim e)) < 5 \<or> length (split_ws (trim e)) > 6)) \<or>
         (\<exists>fs errs. p = Expression (errs = []) e fs errs \<and>
            (errs = [] \<longleftrightarrow> outOfRange (minute fs) = [] \<and> outOfRange (hour fs) = [] \<and>
                outOfRange (dayOfMonth fs) = [] \<and> outOfRange (month fs) = [] \<and>
                outOfRange (dayOfWeek fs) = []))"
  using assms
  by (auto simp: parse_plain_def Let_def field_errors_empty split: if_splits Option.bind_splits)

text \<open>The result for five tokens whose fields all parse.\<close>

lemma parse_plain_five:
  assumes "split_ws (trim e) = [t0, t1, t2, t3, t4]"
    and "parseField t0 Minute = Some f0" "parseField t1 Hour = Some f1"
    and "parseField t2 DayOfMonth = Some f2" "parseField t3 Month = Some f3"
    and "parseField t4 DayOfWeek = Some f4"
  shows "parse_plain e =
     Some (Expression
       (outOfRange f0 = [] \<and> outOfRange f1 = [] \<and> outOfRange f2 = [] \<and> outOfRange f3 = [] \<and>
        outOfRange f4 = [])
       e \<lparr>minute = f0, hour = f1, dayOfMonth = f2, month = f3, dayOfWeek = f4\<rparr>
       (field_errors Minute f0 @ field_errors Hour f1 @ field_errors DayOfMonth f2 @
        field_errors Month f3 @ field_errors DayOfWeek f4))"
  using assms by (simp add: parse_plain_def field_errors_empty)

lemma field_errors_one:
  "field_errors fn parsed = [] \<and> outOfRange parsed = [] \<or>
   (\<exists>msg. field_errors fn parsed = [msg]) \<and> outOfRange parsed \<noteq> []"
  by (simp add: field_errors_def)

text \<open>
  Claim C9. In every five-field expression a value outside the range of its field is said
  to be recorded and reported while the other fields are still parsed. Where every field's
  parse returns this is so: a single value and either bound of a range are recorded when out
  of range (\<open>parseField_records_value\<close>, \<open>parseField_records_bounds\<close>), the values in range
  are kept (\<open>parseField_keeps_value\<close>, \<open>parseField_keeps_range\<close>), and the result holds all
  five fields with at most one message each (\<open>parse_plain_five\<close>, \<open>field_errors_one\<close>); for
  \<open>0 9-99 * * *\<close> see \<open>nine_to_99\<close>. In \<open>60 */0 * * *\<close> the minute 60 is out of range, but
  the hour field that follows has step 0 and \<open>parse\<close> does not return: nothing is recorded
  or reported.
\<close>

theorem parse_out_of_range_then_step_zero: "parse ''60 */0 * * *'' = None"
proof -
  have "split_ws (trim ''60 */0 * * *'') = [''60'', ''*/0'', ''*'', ''*'', ''*'']"
    by code_simp
  from parse_plain_hour_diverges[OF this star_zero]
  have "parse_plain ''60 */0 * * *'' = None" .
  moreover have "take 1 (trim ''60 */0 * * *'') \<noteq> ''@''" by code_simp
  ultimately show ?thesis by (simp add: parse_not_alias)
qed

section \<open>What makes an expression invalid\<close>

lemma foo_is_valid:
  "case parse ''foo * * * *'' of
     Some p \<Rightarrow> valid p \<and> errors p = [] \<and>
       (case fields_of p of
          Some fs \<Rightarrow> values (minute fs) = [NaN] \<and> outOfRange (minute fs) = []
        | None \<Rightarrow> False)
   | None \<Rightarrow> False"
  by code_simp

text \<open>The expansions of the aliases are valid.\<close>

lemma alias_targets:
  assumes "map_of ALIASES alias = Some (Some target)"
  shows "target \<in> {''0 0 1 1 *'', ''0 0 1 * *'', ''0 0 * * 0'', ''0 0 * * *'', ''0 * * * *''}"
proof -
  from map_of_SomeD[OF assms] show ?thesis
    by (auto simp: ALIASES_def)
qed

lemma alias_targets_valid:
  "map_option valid (parse_plain ''0 0 1 1 *'') = Some True"
  "map_option valid (parse_plain ''0 0 1 * *'') = Some True"
  "map_option valid (parse_plain ''0 0 * * 0'') = Some True"
  "map_option valid (parse_plain ''0 0 * * *'') = Some True"
  "map_option valid (parse_plain ''0 * * * *'') = Some True"
  by code_simp+

lemma parse_alias_valid:
  assumes "map_of ALIASES alias = Some (Some target)"
  shows "map_option valid (parse_plain target) = Some True"
  using alias_targets[OF assms] alias_targets_valid by auto

text \<open>An invalid result has one of three causes.\<close>

lemma parse_invalid_only:
  assumes "parse e = Some p" "\<not> valid p"
  shows "(take 1 (trim e) = ''@'' \<and>
            (\<forall>target. map_of ALIASES (toLowerCase (trim e)) \<noteq> Some (Some target)) \<and>
            (\<exists>sug. p = Structural (''Unknown alias: '' @ toLowerCase (trim e)) sug)) \<or>
         (take 1 (trim e) \<noteq> ''@'' \<and>
            (length (split_ws (trim e)) < 5 \<or> length (split_ws (trim e)) > 6) \<and>
            (\<exists>err sug. p = Structural err sug)) \<or>
         (\<exists>fs. fields_of p = Some fs \<and>
            (outOfRange (minute fs) \<noteq> [] \<or> outOfRange (hour fs) \<noteq> [] \<or>
             outOfRange (dayOfMonth fs) \<noteq> [] \<or> outOfRange (month fs) \<noteq> [] \<or>
             outOfRange (dayOfWeek fs) \<noteq> []))"
proof (cases "take 1 (trim e) = ''@''")
  case True
  show ?thesis
  proof (cases "toLowerCase (trim e) = ''@reboot''")
    case reboot: True
    with True assms show ?thesis by (simp add: parse_def)
  next
    case False
    show ?thesis
    proof (cases "\<exists>target. map_of ALIASES (toLowerCase (trim e)) = Some (Some target)")
      case known: True
      then obtain target where t: "map_of ALIASES (toLowerCase (trim e)) = Some (Some target)" ..
      with True False assms(1) have "parse_plain target = Some p" by (simp add: parse_def)
      with parse_alias_valid[OF t] assms(2) show ?thesis by simp
    next
      case unknown: False
      with True False assms(1) have
        "p = Structural (''Unknown alias: '' @ toLowerCase (trim e))
               (''Valid aliases: '' @ join '', '' (map fst ALIASES))"
        by (cases "map_of ALIASES (toLowerCase (trim e))")
           (auto simp: parse_def Let_def split: option.splits)
      with True unknown show ?thesis by blast
    qed
  qed
next
  case False
  with assms(1) have "parse_plain e = Some p" by (simp add: parse_def)
  from parse_plain_cases[OF this] assms(2) False show ?thesis by auto
qed

text \<open>With five or six tokens, valid means that no field recorded a value out of range.\<close>

lemma parse_valid_iff:
  assumes "parse e = Some p" "take 1 (trim e) \<noteq> ''@''"
    and "5 \<le> length (split_ws (trim e))" "length (split_ws (trim e)) \<le> 6"
  shows "\<exists>fs. fields_of p = Some fs \<and>
           (valid p \<longleftrightarrow> outOfRange (minute fs) = [] \<and> outOfRange (hour fs) = [] \<and>
              outOfRange (dayOfMonth fs) = [] \<and> outOfRange (month fs) = [] \<and>
              outOfRange (dayOfWeek fs) = [])"
proof -
  from assms(1,2) have "parse_plain e = Some p" by (simp add: parse_def)
  from parse_plain_cases[OF this] assms(3,4) show ?thesis by auto
qed

text \<open>A field that is one token and no number is accepted, with the value \<open>NaN\<close>.\<close>

lemma parseField_not_a_number:
  assumes "segments_of fn field = [segment]"
    and "fst (split_step segment) = rg" "rg \<noteq> ''*''" "CHR ''-'' \<notin> set rg"
    and "parseInt rg = NaN"
  shows "parseField field fn =
     Some \<lparr>values = [NaN], raw = field, description = ''NaN'', outOfRange = []\<rparr>"
proof -
  have "parse_segment fn ([], [], []) segment = Some ([NaN], [''NaN''], [])"
    by (simp add: parse_segment_single[OF assms(2-5)] set_add_def js_gt_def)
  with assms(1) show ?thesis
    by (simp add: parseField_def segments_of_def[symmetric] js_sort_def)
qed

text \<open>
  Claim C10. An expression is said to be invalid only for a wrong field count, an unknown
  alias or a number out of range, and every input of five tokens without a number out of
  range is said to be returned as valid, even with a token that is no number. Every result
  that \<open>parse\<close> returns obeys this (\<open>parse_invalid_only\<close>, \<open>parse_valid_iff\<close>,
  \<open>parseField_not_a_number\<close>, and \<open>foo_is_valid\<close> for \<open>foo * * * *\<close>). The input
  \<open>0 */0 * * *\<close> has five tokens and its only numbers are 0, within the range of the minute
  and of the hour; \<open>parse\<close> does not return on it.
\<close>

theorem parse_step_zero_not_returned: "parse ''0 */0 * * *'' = None"
proof -
  have "split_ws (trim ''0 */0 * * *'') = [''0'', ''*/0'', ''*'', ''*'', ''*'']"
    by code_simp
  from parse_plain_hour_diverges[OF this star_zero]
  have "parse_plain ''0 */0 * * *'' = None" .
  moreover have "take 1 (trim ''0 */0 * * *'') \<noteq> ''@''" by code_simp
  ultimately show ?thesis by (simp add: parse_not_alias)
qed

end
